theory Spec2Isabelle
  imports Main "HOL-Library.Sublist" "HOL-Library.AList"
begin

section \<open>The file connector: extraction, metadata reconciliation, batching\<close>

text \<open>
  A shallow embedding of \<^verbatim>\<open>backend/danswer/connectors/file/connector.py\<close>:
  \<^verbatim>\<open>_read_files_and_metadata\<close>, \<^verbatim>\<open>_process_file\<close> and
  \<^verbatim>\<open>LocalFileConnector.load_from_state\<close>.

  Python exceptions are values of type \<open>error\<close>; a function that may raise returns
  \<open>error + 'a\<close>. A generator is the list of the items it yields together with the
  exception that ends it, if any. The wall clock is a function from the number of earlier
  calls of \<^verbatim>\<open>datetime.now\<close> to the instant returned, and the number of calls
  is threaded through the model. The libraries and the helpers of other modules are
  fields of an environment record: functions of the file they read, so that reading a
  stream is not a change of state. The validation that the constructors of
  \<^verbatim>\<open>Document\<close> and \<^verbatim>\<open>Section\<close> run on their arguments is outside the
  sources and is not modelled: a field holds the value that the connector passes.
\<close>

subsection \<open>Python values\<close>

type_synonym timestamp = int

text \<open>
  The values a metadata bag holds: \<^verbatim>\<open>None\<close>, a string, a list of names, a
  timestamp (\<^verbatim>\<open>datetime\<close>). A \<open>char\<close> is a code point below 256.
\<close>

datatype pyval = PNone | PStr string | PList "string list" | PTime timestamp

datatype error =
    TypeError
  | NotFound
  | MalformedArchive
  | DecryptionError
  | InvalidTimestamp
  | LibraryError string

text \<open>Python truthiness, as used by \<^verbatim>\<open>if x\<close> and \<^verbatim>\<open>x or y\<close>.\<close>

fun truthy :: "pyval \<Rightarrow> bool" where
  "truthy PNone = False"
| "truthy (PStr s) = (s \<noteq> [])"
| "truthy (PList xs) = (xs \<noteq> [])"
| "truthy (PTime t) = True"

text \<open>
  A metadata bag is a Python \<^verbatim>\<open>dict\<close>: its items in insertion order, each key
  once. \<open>map_of d k\<close> is the value at key \<open>k\<close>, if any.
\<close>

type_synonym metadata = "(string \<times> pyval) list"

text \<open>\<^verbatim>\<open>d.get(k)\<close>, \<^verbatim>\<open>d.get(k, default)\<close>, \<^verbatim>\<open>d[k] = v\<close> and
  \<^verbatim>\<open>{**a, **b}\<close>.\<close>

definition dict_get :: "metadata \<Rightarrow> string \<Rightarrow> pyval" where
  "dict_get d k = (case map_of d k of None \<Rightarrow> PNone | Some v \<Rightarrow> v)"

definition dict_get_default :: "metadata \<Rightarrow> string \<Rightarrow> pyval \<Rightarrow> pyval" where
  "dict_get_default d k dflt = (case map_of d k of None \<Rightarrow> dflt | Some v \<Rightarrow> v)"

definition dict_set :: "metadata \<Rightarrow> string \<Rightarrow> pyval \<Rightarrow> metadata" where
  "dict_set d k v = AList.update k v d"

definition dict_merge :: "metadata \<Rightarrow> metadata \<Rightarrow> metadata" where
  "dict_merge a b = foldl (\<lambda>d (k, v). dict_set d k v) a b"

subsection \<open>String operations of the Python library\<close>

text \<open>
  \<^verbatim>\<open>str.isspace\<close> on one character, for the code points below 256: the ASCII
  controls 9 to 13 and 28 to 31, the space, NEL (133) and the no-break space (160).
\<close>

definition isspace :: "char \<Rightarrow> bool" where
  "isspace c =
     (let n = (of_char c :: nat)
      in (9 \<le> n \<and> n \<le> 13) \<or> (28 \<le> n \<and> n \<le> 32) \<or> n = 133 \<or> n = 160)"

text \<open>\<^verbatim>\<open>s.strip()\<close>.\<close>

definition strip :: "string \<Rightarrow> string" where
  "strip s = rev (dropWhile isspace (rev (dropWhile isspace s)))"

text \<open>\<^verbatim>\<open>sep.join(xs)\<close>.\<close>

fun join_str :: "string \<Rightarrow> string list \<Rightarrow> string" where
  "join_str sep [] = []"
| "join_str sep [x] = x"
| "join_str sep (x # y # ys) = x @ sep @ join_str sep (y # ys)"

text \<open>\<^verbatim>\<open>str(n)\<close> for a natural number, as the f-string formats it.\<close>

definition digit_char :: "nat \<Rightarrow> char" where
  "digit_char d = ''0123456789'' ! d"

function str_of_nat :: "nat \<Rightarrow> string" where
  "str_of_nat n =
     (if n < 10 then [digit_char n] else str_of_nat (n div 10) @ [digit_char (n mod 10)])"
  by pat_completeness auto
termination
  by (relation "measure id") auto

text \<open>\<^verbatim>\<open>os.path.basename\<close>, \<^verbatim>\<open>os.path.dirname\<close> and the two-argument
  \<^verbatim>\<open>os.path.join\<close> of \<^verbatim>\<open>posixpath\<close>.\<close>

definition basename :: "string \<Rightarrow> string" where
  "basename p = rev (takeWhile (\<lambda>c. c \<noteq> CHR ''/'') (rev p))"

definition dirname :: "string \<Rightarrow> string" where
  "dirname p =
     (let head = rev (dropWhile (\<lambda>c. c \<noteq> CHR ''/'') (rev p))
      in if head \<noteq> [] \<and> head \<noteq> replicate (length head) CHR ''/''
         then rev (dropWhile (\<lambda>c. c = CHR ''/'') (rev head))
         else head)"

definition path_join :: "string \<Rightarrow> string \<Rightarrow> string" where
  "path_join a b =
     (if prefix ''/'' b then b
      else if a = [] \<or> suffix ''/'' a then a @ b
      else a @ ''/'' @ b)"

subsection \<open>The document model\<close>

datatype basic_expert_info = BasicExpertInfo (display_name: string)

datatype document_source = FILE

record doc_section =
  section_link :: pyval
  section_text :: string

record document =
  doc_id :: string
  sections :: "doc_section list"
  source :: document_source
  semantic_identifier :: pyval
  doc_updated_at :: pyval
  primary_owners :: "basic_expert_info list option"
  secondary_owners :: "basic_expert_info list option"
  doc_metadata :: metadata

subsection \<open>What the libraries hand to the connector\<close>

text \<open>
  A shape of a slide is \<open>Some t\<close> when it has a \<^verbatim>\<open>text\<close> attribute \<open>t\<close>. A cell
  of a worksheet is given by its \<^verbatim>\<open>str\<close> rendering. An e-mail message is its
  content type with either a string payload or, when it is multipart, its sub-messages.
\<close>

type_synonym shape = "string option"
type_synonym slide = "shape list"
type_synonym presentation = "slide list"
type_synonym workbook = "string list list list"

datatype message = Message (get_content_type: string) (get_payload: "string + message list")

text \<open>\<^verbatim>\<open>Message.walk\<close>: the message itself, then its sub-messages, depth first.\<close>

fun walk :: "message \<Rightarrow> message list" where
  "walk (Message ct (Inl s)) = [Message ct (Inl s)]"
| "walk (Message ct (Inr subparts)) = Message ct (Inr subparts) # concat (map walk subparts)"

text \<open>
  The environment: the helpers imported from other modules and the libraries. \<open>'f\<close> is
  the type of an open binary file. \<open>utcnow n\<close> is what
  \<^verbatim>\<open>datetime.now(timezone.utc)\<close> returns at its call number \<open>n\<close>.
  \<open>load_files_from_zip\<close> is a generator: the triples it yields and the exception that
  ends it, if any.
\<close>

record 'f env =
  get_file_ext :: "string \<Rightarrow> string"
  check_file_ext_is_valid :: "string \<Rightarrow> bool"
  detect_encoding :: "'f \<Rightarrow> error + string"
  read_file :: "'f \<Rightarrow> string \<Rightarrow> error + string \<times> metadata"
  read_pdf_file :: "'f \<Rightarrow> string \<Rightarrow> string option \<Rightarrow> error + string"
  docx2txt_process :: "'f \<Rightarrow> error + string"
  pptx_Presentation :: "'f \<Rightarrow> error + presentation"
  openpyxl_load_workbook :: "'f \<Rightarrow> error + workbook"
  csv_reader :: "'f \<Rightarrow> string \<Rightarrow> error + string list list"
  email_parse :: "'f \<Rightarrow> string \<Rightarrow> error + message"
  zip_infolist :: "'f \<Rightarrow> error + string list"
  soup_get_text :: "'f \<Rightarrow> string \<Rightarrow> error + string"
  time_str_to_utc :: "pyval \<Rightarrow> error + timestamp"
  utcnow :: "nat \<Rightarrow> timestamp"
  store_read_file :: "string \<Rightarrow> error + 'f"
  load_files_from_zip :: "'f \<Rightarrow> (string \<times> 'f \<times> metadata) list \<times> error option"

subsection \<open>\<^verbatim>\<open>_process_file\<close>: the format extractors (lines 87 to 145)\<close>

text \<open>The loops of the \<^verbatim>\<open>.pptx\<close> branch: over the shapes of one slide, with the
  string \<^verbatim>\<open>extracted_text\<close> as accumulator, and over the slides, numbered from
  \<^verbatim>\<open>start=1\<close>, with the list \<^verbatim>\<open>text_content\<close> as accumulator.\<close>

fun shapes_loop :: "string \<Rightarrow> shape list \<Rightarrow> string" where
  "shapes_loop extracted_text [] = extracted_text"
| "shapes_loop extracted_text (sh # shapes) =
     shapes_loop
       (case sh of None \<Rightarrow> extracted_text | Some t \<Rightarrow> extracted_text @ t @ ''\<newline>'')
       shapes"

fun slides_loop :: "nat \<Rightarrow> string list \<Rightarrow> slide list \<Rightarrow> string list" where
  "slides_loop slide_number text_content [] = text_content"
| "slides_loop slide_number text_content (sl # slides) =
     slides_loop (Suc slide_number)
       (text_content @
          [shapes_loop (''\<newline>Slide '' @ str_of_nat slide_number @ '':\<newline>'') sl])
       slides"

definition pptx_text :: "presentation \<Rightarrow> string" where
  "pptx_text presentation = join_str ''\<newline>\<newline>'' (slides_loop 1 [] presentation)"

text \<open>The \<^verbatim>\<open>.xlsx\<close> and \<^verbatim>\<open>.csv\<close> branches.\<close>

definition xlsx_text :: "workbook \<Rightarrow> string" where
  "xlsx_text worksheets =
     join_str ''\<newline>\<newline>''
       (map (\<lambda>sheet. join_str ''\<newline>'' (map (join_str '','') sheet)) worksheets)"

definition csv_text :: "string list list \<Rightarrow> string" where
  "csv_text rows = join_str ''\<newline>'' (map (join_str '','') rows)"

text \<open>
  The loop of the \<^verbatim>\<open>.eml\<close> branch over \<^verbatim>\<open>message.walk()\<close>, with the list
  \<^verbatim>\<open>text_content\<close> of payloads as accumulator, and the \<^verbatim>\<open>join\<close> after it,
  which raises \<^verbatim>\<open>TypeError\<close> on a payload that is a list.
\<close>

fun eml_loop :: "(string + message list) list \<Rightarrow> message list \<Rightarrow> (string + message list) list" where
  "eml_loop text_content [] = text_content"
| "eml_loop text_content (part # parts) =
     eml_loop
       (if prefix ''text/plain'' (get_content_type part)
        then text_content @ [get_payload part] else text_content)
       parts"

fun payload_strings :: "(string + message list) list \<Rightarrow> error + string list" where
  "payload_strings [] = Inr []"
| "payload_strings (Inr ms # ps) = Inl TypeError"
| "payload_strings (Inl s # ps) =
     (case payload_strings ps of Inl e \<Rightarrow> Inl e | Inr ss \<Rightarrow> Inr (s # ss))"

definition eml_text :: "message \<Rightarrow> error + string" where
  "eml_text msg =
     (case payload_strings (eml_loop [] (walk msg)) of
        Inl e \<Rightarrow> Inl e
      | Inr ss \<Rightarrow> Inr (join_str ''\<newline>\<newline>'' ss))"

text \<open>The loop of the \<^verbatim>\<open>.epub\<close> branch over \<^verbatim>\<open>epub.infolist()\<close>.\<close>

fun epub_loop :: "'f env \<Rightarrow> 'f \<Rightarrow> string list \<Rightarrow> string list \<Rightarrow> error + string list" where
  "epub_loop E file text_content [] = Inr text_content"
| "epub_loop E file text_content (filename # items) =
     (if suffix ''.xhtml'' filename \<or> suffix ''.html'' filename
      then (case soup_get_text E file filename of
              Inl e \<Rightarrow> Inl e
            | Inr t \<Rightarrow> epub_loop E file (text_content @ [t]) items)
      else epub_loop E file text_content items)"

text \<open>The dispatch on the extension: \<^verbatim>\<open>file_content_raw\<close> and
  \<^verbatim>\<open>file_metadata\<close>, or the exception of the library.\<close>

definition extract_text ::
  "'f env \<Rightarrow> string \<Rightarrow> string \<Rightarrow> 'f \<Rightarrow> string option \<Rightarrow> error + string \<times> metadata" where
  "extract_text E extension file_name file pdf_pass =
     (if extension = ''.pdf'' then
        (case read_pdf_file E file file_name pdf_pass of
           Inl e \<Rightarrow> Inl e | Inr t \<Rightarrow> Inr (t, []))
      else if extension = ''.docx'' then
        (case docx2txt_process E file of
           Inl e \<Rightarrow> Inl e | Inr t \<Rightarrow> Inr (t, []))
      else if extension = ''.pptx'' then
        (case pptx_Presentation E file of
           Inl e \<Rightarrow> Inl e | Inr p \<Rightarrow> Inr (pptx_text p, []))
      else if extension = ''.xlsx'' then
        (case openpyxl_load_workbook E file of
           Inl e \<Rightarrow> Inl e | Inr w \<Rightarrow> Inr (xlsx_text w, []))
      else if extension = ''.csv'' then
        (case detect_encoding E file of
           Inl e \<Rightarrow> Inl e
         | Inr enc \<Rightarrow>
             (case csv_reader E file enc of
                Inl e \<Rightarrow> Inl e | Inr rows \<Rightarrow> Inr (csv_text rows, [])))
      else if extension = ''.eml'' then
        (case detect_encoding E file of
           Inl e \<Rightarrow> Inl e
         | Inr enc \<Rightarrow>
             (case email_parse E file enc of
                Inl e \<Rightarrow> Inl e
              | Inr msg \<Rightarrow>
                  (case eml_text msg of
                     Inl e \<Rightarrow> Inl e | Inr t \<Rightarrow> Inr (t, []))))
      else if extension = ''.epub'' then
        (case zip_infolist E file of
           Inl e \<Rightarrow> Inl e
         | Inr items \<Rightarrow>
             (case epub_loop E file [] items of
                Inl e \<Rightarrow> Inl e
              | Inr ts \<Rightarrow> Inr (join_str ''\<newline>\<newline>'' ts, [])))
      else
        (case detect_encoding E file of
           Inl e \<Rightarrow> Inl e
         | Inr enc \<Rightarrow> read_file E file enc))"

subsection \<open>\<^verbatim>\<open>_process_file\<close>: the metadata reconciler (lines 146 to 202)\<close>

text \<open>Line 146: \<^verbatim>\<open>{**metadata, **file_metadata} if metadata else file_metadata\<close>.\<close>

definition merge_metadata :: "metadata option \<Rightarrow> metadata \<Rightarrow> metadata" where
  "merge_metadata metadata file_metadata =
     (case metadata of
        None \<Rightarrow> file_metadata
      | Some m \<Rightarrow> if m = [] then file_metadata else dict_merge m file_metadata)"

text \<open>Lines 151 to 156. \<open>now\<close> is the value of \<^verbatim>\<open>datetime.now(timezone.utc)\<close>,
  which line 151 evaluates whether the key is there or not.\<close>

definition resolve_time_updated :: "'f env \<Rightarrow> timestamp \<Rightarrow> metadata \<Rightarrow> error + pyval" where
  "resolve_time_updated E now all_metadata =
     (case dict_get_default all_metadata ''time_updated'' (PTime now) of
        PStr s \<Rightarrow>
          (case time_str_to_utc E (PStr s) of Inl e \<Rightarrow> Inl e | Inr t \<Rightarrow> Inr (PTime t))
      | v \<Rightarrow> Inr v)"

definition final_time_updated :: "'f env \<Rightarrow> metadata \<Rightarrow> pyval \<Rightarrow> error + pyval" where
  "final_time_updated E all_metadata time_updated =
     (let dt_str = dict_get all_metadata ''doc_updated_at''
      in if truthy dt_str
         then (case time_str_to_utc E dt_str of Inl e \<Rightarrow> Inl e | Inr t \<Rightarrow> Inr (PTime t))
         else Inr time_updated)"

text \<open>Lines 159 to 172.\<close>

definition reserved_keys :: "string list" where
  "reserved_keys =
     [''time_updated'', ''doc_updated_at'', ''link'', ''primary_owners'',
      ''secondary_owners'', ''filename'', ''file_display_name'']"

definition metadata_tags :: "metadata \<Rightarrow> metadata" where
  "metadata_tags all_metadata = filter (\<lambda>(k, v). k \<notin> set reserved_keys) all_metadata"

text \<open>
  Lines 176 to 185: \<^verbatim>\<open>[BasicExpertInfo(display_name=name) for name in names] if names else None\<close>.
  Iterating a string gives its characters; a timestamp is truthy and not iterable.
\<close>

definition owners :: "pyval \<Rightarrow> error + basic_expert_info list option" where
  "owners names =
     (if truthy names
      then (case names of
              PList xs \<Rightarrow> Inr (Some (map BasicExpertInfo xs))
            | PStr s \<Rightarrow> Inr (Some (map (\<lambda>c. BasicExpertInfo [c]) s))
            | _ \<Rightarrow> Inl TypeError)
      else Inr None)"

text \<open>Lines 146 to 202, given the extractor's result.\<close>

definition build_documents ::
  "'f env \<Rightarrow> timestamp \<Rightarrow> string \<Rightarrow> string \<Rightarrow> metadata option \<Rightarrow> metadata
     \<Rightarrow> error + document list" where
  "build_documents E now file_name file_content_raw metadata file_metadata =
     (let all_metadata = merge_metadata metadata file_metadata;
          file_display_name_override = dict_get all_metadata ''file_display_name''
      in case resolve_time_updated E now all_metadata of
           Inl e \<Rightarrow> Inl e
         | Inr time_updated \<Rightarrow>
        (case final_time_updated E all_metadata time_updated of
           Inl e \<Rightarrow> Inl e
         | Inr final \<Rightarrow>
        (case owners (dict_get all_metadata ''primary_owners'') of
           Inl e \<Rightarrow> Inl e
         | Inr p_owners \<Rightarrow>
        (case owners (dict_get all_metadata ''secondary_owners'') of
           Inl e \<Rightarrow> Inl e
         | Inr s_owners \<Rightarrow>
             Inr [\<lparr>doc_id = ''FILE_CONNECTOR__'' @ file_name,
                   sections =
                     [\<lparr>section_link = dict_get all_metadata ''link'',
                       section_text = strip file_content_raw\<rparr>],
                   source = FILE,
                   semantic_identifier =
                     (if truthy file_display_name_override then file_display_name_override
                      else PStr (basename file_name)),
                   doc_updated_at = final,
                   primary_owners = p_owners,
                   secondary_owners = s_owners,
                   doc_metadata = metadata_tags all_metadata\<rparr>]))))"

text \<open>
  \<^verbatim>\<open>_process_file\<close>. \<open>n\<close> is the number of earlier calls of the clock; the
  result comes with the number of calls after it.
\<close>

definition process_file ::
  "'f env \<Rightarrow> nat \<Rightarrow> string \<Rightarrow> 'f \<Rightarrow> metadata option \<Rightarrow> string option
     \<Rightarrow> (error + document list) \<times> nat" where
  "process_file E n file_name file metadata pdf_pass =
     (let extension = get_file_ext E file_name
      in if \<not> check_file_ext_is_valid E extension then (Inr [], n)
         else (case extract_text E extension file_name file pdf_pass of
                 Inl e \<Rightarrow> (Inl e, n)
               | Inr (file_content_raw, file_metadata) \<Rightarrow>
                   (build_documents E (utcnow E n) file_name file_content_raw
                      metadata file_metadata,
                    Suc n)))"

subsection \<open>\<^verbatim>\<open>_read_files_and_metadata\<close>\<close>

type_synonym 'f entry = "string \<times> 'f \<times> metadata"

text \<open>The generator: the entries it yields, and the exception that ends it, if any.\<close>

definition read_files_and_metadata :: "'f env \<Rightarrow> string \<Rightarrow> 'f entry list \<times> error option" where
  "read_files_and_metadata E file_name =
     (let extension = get_file_ext E file_name;
          directory_path = dirname file_name
      in case store_read_file E file_name of
           Inl e \<Rightarrow> ([], Some e)
         | Inr file_content \<Rightarrow>
             if extension = ''.zip'' then
               (case load_files_from_zip E file_content of
                  (infos, raised) \<Rightarrow>
                    (map (\<lambda>(filename, file, metadata).
                            (path_join directory_path filename, file, metadata)) infos,
                     raised))
             else if extension \<in> set [''.txt'', ''.md'', ''.mdx'', ''.pdf'', ''.docx'',
                                       ''.pptx'', ''.xlsx'', ''.csv'', ''.eml'', ''.epub'']
             then ([(file_name, file_content, [])], None)
             else ([], None))"

subsection \<open>\<^verbatim>\<open>LocalFileConnector\<close>\<close>

text \<open>\<open>file_locations\<close> holds \<^verbatim>\<open>str(file_path)\<close> of each location.\<close>

record connector =
  file_locations :: "string list"
  batch_size :: int
  pdf_pass :: "string option"

definition load_credentials :: "connector \<Rightarrow> (string \<rightharpoonup> string) \<Rightarrow> connector" where
  "load_credentials c credentials = c\<lparr>pdf_pass := credentials ''pdf_password''\<rparr>"

text \<open>
  The state of \<^verbatim>\<open>load_from_state\<close>: the batch in progress, the batches yielded so
  far, and the number of calls of the clock so far.
\<close>

record loop_state =
  documents :: "document list"
  yielded :: "document list list"
  clock :: nat

text \<open>Lines 229 to 234: the call of \<^verbatim>\<open>_process_file\<close> on one entry, after the
  default of \<^verbatim>\<open>time_updated\<close> is written into the entry's metadata.\<close>

definition process_entry ::
  "'f env \<Rightarrow> connector \<Rightarrow> timestamp \<Rightarrow> nat \<Rightarrow> 'f entry \<Rightarrow> (error + document list) \<times> nat" where
  "process_entry E c current_datetime n entry =
     (case entry of
        (file_name, file, metadata) \<Rightarrow>
          process_file E n file_name file
            (Some (dict_set metadata ''time_updated''
                     (dict_get_default metadata ''time_updated'' (PTime current_datetime))))
            (pdf_pass c))"

text \<open>Lines 228 to 238: the loop over the entries of one location.\<close>

fun files_loop ::
  "'f env \<Rightarrow> connector \<Rightarrow> timestamp \<Rightarrow> loop_state \<Rightarrow> 'f entry list
     \<Rightarrow> loop_state \<times> error option" where
  "files_loop E c current_datetime st [] = (st, None)"
| "files_loop E c current_datetime st (entry # entries) =
     (case process_entry E c current_datetime (clock st) entry of
        (Inl e, n) \<Rightarrow> (st\<lparr>clock := n\<rparr>, Some e)
      | (Inr docs, n) \<Rightarrow>
          (let extended = documents st @ docs
           in if batch_size c \<le> int (length extended)
              then files_loop E c current_datetime
                     (st\<lparr>documents := [], yielded := yielded st @ [extended], clock := n\<rparr>)
                     entries
              else files_loop E c current_datetime
                     (st\<lparr>documents := extended, clock := n\<rparr>) entries))"

text \<open>Lines 222 to 238: the loop over the locations.\<close>

fun locations_loop ::
  "'f env \<Rightarrow> connector \<Rightarrow> loop_state \<Rightarrow> string list \<Rightarrow> loop_state \<times> error option" where
  "locations_loop E c st [] = (st, None)"
| "locations_loop E c st (file_path # rest) =
     (let current_datetime = utcnow E (clock st)
      in case read_files_and_metadata E file_path of
           (files, raised) \<Rightarrow>
             (case files_loop E c current_datetime (st\<lparr>clock := Suc (clock st)\<rparr>) files of
                (st', Some e) \<Rightarrow> (st', Some e)
              | (st', None) \<Rightarrow>
                  (case raised of
                     Some e \<Rightarrow> (st', Some e)
                   | None \<Rightarrow> locations_loop E c st' rest)))"

text \<open>
  \<^verbatim>\<open>load_from_state\<close>: the batches the generator yields when it is run to its end,
  and the exception that ends it, if any.
\<close>

definition load_from_state :: "'f env \<Rightarrow> connector \<Rightarrow> document list list \<times> error option" where
  "load_from_state E c =
     (case locations_loop E c \<lparr>documents = [], yielded = [], clock = 0\<rparr> (file_locations c) of
        (st, Some e) \<Rightarrow> (yielded st, Some e)
      | (st, None) \<Rightarrow>
          (if documents st \<noteq> [] then yielded st @ [documents st] else yielded st, None))"

subsection \<open>The extension classifier\<close>

text \<open>
  \<^verbatim>\<open>get_file_ext\<close> and \<^verbatim>\<open>check_file_ext_is_valid\<close> are defined in
  \<^verbatim>\<open>danswer/connectors/file/utils.py\<close>, which is not among the sources. The
  theorems below hold for every classifier, a field of the environment; the classifier
  of section 4.1 of the spec is the one of the examples.
\<close>

text \<open>Modelled from the spec: the lower-casing of one character that the
  \<^verbatim>\<open>get_file_ext\<close> of section 4.1 applies (ASCII letters).\<close>

definition lower_char :: "char \<Rightarrow> char" where
  "lower_char c =
     (let n = (of_char c :: nat)
      in if 65 \<le> n \<and> n \<le> 90 then ''abcdefghijklmnopqrstuvwxyz'' ! (n - 65) else c)"

text \<open>Modelled from the spec: \<^verbatim>\<open>get_file_ext\<close>, missing from the sources.
  Section 4.1: pure string-suffix extraction, lower-cased; here the suffix of the base name
  from its last dot, and the empty string when the base name has no dot.\<close>

definition spec_get_file_ext :: "string \<Rightarrow> string" where
  "spec_get_file_ext file_name =
     (let base = basename file_name
      in if CHR ''.'' \<in> set base
         then map lower_char (CHR ''.'' # rev (takeWhile (\<lambda>c. c \<noteq> CHR ''.'') (rev base)))
         else [])"

text \<open>Modelled from the spec: \<^verbatim>\<open>check_file_ext_is_valid\<close>, missing from the
  sources. Section 4.1: membership in the fixed allow-list, with \<^verbatim>\<open>.zip\<close>.\<close>

definition spec_check_file_ext_is_valid :: "string \<Rightarrow> bool" where
  "spec_check_file_ext_is_valid ext =
     (ext \<in> set [''.txt'', ''.md'', ''.mdx'', ''.pdf'', ''.docx'', ''.pptx'', ''.xlsx'',
                  ''.csv'', ''.eml'', ''.epub'', ''.zip''])"

subsection \<open>An environment for the examples\<close>

text \<open>
  A file of the examples is what the library of its format reads from it: the text and
  header metadata of a text file, the slides of a presentation, the parsed message of an
  e-mail, the entries of a zip archive with their metadata. Every other library call
  fails. The blob store is a list of names with their files, the clock returns \<open>1000 + n\<close> at
  its call number \<open>n\<close>, and the timestamp parser knows one date.
\<close>

datatype example_file =
    TextFile string metadata
  | PptxFile presentation
  | EmlFile message
  | ZipFile "(string \<times> example_file \<times> metadata) list"
  | Bytes string

definition example_time_str_to_utc :: "pyval \<Rightarrow> error + timestamp" where
  "example_time_str_to_utc v =
     (case v of
        PStr s \<Rightarrow> if s = ''2024-01-01T00:00:00Z'' then Inr 1704067200 else Inl InvalidTimestamp
      | _ \<Rightarrow> Inl TypeError)"

definition example_env :: "(string \<times> example_file) list \<Rightarrow> example_file env" where
  "example_env store =
     \<lparr>get_file_ext = spec_get_file_ext,
      check_file_ext_is_valid = spec_check_file_ext_is_valid,
      detect_encoding = (\<lambda>f. Inr ''utf-8''),
      read_file =
        (\<lambda>f enc. case f of TextFile t file_metadata \<Rightarrow> Inr (t, file_metadata)
                          | _ \<Rightarrow> Inl (LibraryError ''read_file'')),
      read_pdf_file = (\<lambda>f file_name pdf_pass. Inl (LibraryError ''read_pdf_file'')),
      docx2txt_process = (\<lambda>f. Inl (LibraryError ''docx2txt'')),
      pptx_Presentation =
        (\<lambda>f. case f of PptxFile p \<Rightarrow> Inr p | _ \<Rightarrow> Inl (LibraryError ''pptx'')),
      openpyxl_load_workbook = (\<lambda>f. Inl (LibraryError ''openpyxl'')),
      csv_reader = (\<lambda>f enc. Inl (LibraryError ''csv'')),
      email_parse =
        (\<lambda>f enc. case f of EmlFile m \<Rightarrow> Inr m | _ \<Rightarrow> Inl (LibraryError ''email'')),
      zip_infolist = (\<lambda>f. Inl (LibraryError ''zipfile'')),
      soup_get_text = (\<lambda>f filename. Inl (LibraryError ''bs4'')),
      time_str_to_utc = example_time_str_to_utc,
      utcnow = (\<lambda>n. 1000 + int n),
      store_read_file = (\<lambda>file_name. case map_of store file_name of None \<Rightarrow> Inl NotFound | Some f \<Rightarrow> Inr f),
      load_files_from_zip =
        (\<lambda>f. case f of
                ZipFile infos \<Rightarrow> (infos, None)
              | _ \<Rightarrow> ([], Some MalformedArchive))\<rparr>"

subsection \<open>Predicates of the properties\<close>

text \<open>A string has no leading and no trailing whitespace.\<close>

definition trimmed :: "string \<Rightarrow> bool" where
  "trimmed s = (case s of [] \<Rightarrow> True | c # cs \<Rightarrow> \<not> isspace c \<and> \<not> isspace (last s))"

text \<open>The documents a state of \<^verbatim>\<open>load_from_state\<close> holds: those of the batches
  yielded, then those of the batch in progress.\<close>

definition all_documents :: "loop_state \<Rightarrow> document list" where
  "all_documents st = concat (yielded st) @ documents st"

text \<open>The invariant of the loops for a batch size \<open>B\<close>: the batch in progress is
  shorter than \<open>B\<close>, and every batch yielded has \<open>B\<close> documents.\<close>

definition batch_inv :: "nat \<Rightarrow> loop_state \<Rightarrow> bool" where
  "batch_inv B st = (length (documents st) < B \<and> list_all (\<lambda>b. length b = B) (yielded st))"

text \<open>A metadata bag supplies neither \<^verbatim>\<open>time_updated\<close> nor
  \<^verbatim>\<open>doc_updated_at\<close>; an entry supplies neither, in the caller's metadata it comes
  with and in the metadata its extractor returns.\<close>

definition no_time_keys :: "metadata \<Rightarrow> bool" where
  "no_time_keys md = (map_of md ''time_updated'' = None \<and> map_of md ''doc_updated_at'' = None)"

definition supplies_no_time :: "'f env \<Rightarrow> connector \<Rightarrow> 'f entry \<Rightarrow> bool" where
  "supplies_no_time E c entry =
     (case entry of
        (file_name, f, md) \<Rightarrow>
          no_time_keys md \<and>
          (case extract_text E (get_file_ext E file_name) file_name f (pdf_pass c) of
             Inl e \<Rightarrow> True
           | Inr (raw, fm) \<Rightarrow> no_time_keys fm))"

text \<open>
  The documents that a run produces, batching apart: the documents that the calls of
  \<^verbatim>\<open>_process_file\<close> return, in the order of the calls, for the entries of one
  location and for the locations of a run, up to the first exception. The clock is read
  and counted as \<^verbatim>\<open>load_from_state\<close> does: once for each location, then by
  the calls of \<^verbatim>\<open>_process_file\<close>.
\<close>

fun files_produced ::
  "'f env \<Rightarrow> connector \<Rightarrow> timestamp \<Rightarrow> nat \<Rightarrow> 'f entry list
     \<Rightarrow> document list \<times> nat \<times> error option" where
  "files_produced E c current_datetime n [] = ([], n, None)"
| "files_produced E c current_datetime n (entry # entries) =
     (case process_entry E c current_datetime n entry of
        (Inl e, n') \<Rightarrow> ([], n', Some e)
      | (Inr docs, n') \<Rightarrow>
          (case files_produced E c current_datetime n' entries of
             (later, n'', raised) \<Rightarrow> (docs @ later, n'', raised)))"

fun locations_produced ::
  "'f env \<Rightarrow> connector \<Rightarrow> nat \<Rightarrow> string list \<Rightarrow> document list \<times> error option" where
  "locations_produced E c n [] = ([], None)"
| "locations_produced E c n (file_path # rest) =
     (case read_files_and_metadata E file_path of
        (files, raised) \<Rightarrow>
          (case files_produced E c (utcnow E n) (Suc n) files of
             (docs, n', Some e) \<Rightarrow> (docs, Some e)
           | (docs, n', None) \<Rightarrow>
               (case raised of
                  Some e \<Rightarrow> (docs, Some e)
                | None \<Rightarrow>
                    (case locations_produced E c n' rest of
                       (later, r) \<Rightarrow> (docs @ later, r)))))"

definition produced_documents :: "'f env \<Rightarrow> connector \<Rightarrow> document list" where
  "produced_documents E c = fst (locations_produced E c 0 (file_locations c))"

section \<open>Properties\<close>

subsection \<open>The shape of a successful call of \<^verbatim>\<open>_process_file\<close>\<close>

lemmas example_defs =
  example_env_def spec_get_file_ext_def spec_check_file_ext_is_valid_def basename_def
  lower_char_def process_file_def extract_text_def build_documents_def merge_metadata_def
  resolve_time_updated_def final_time_updated_def dict_get_def dict_get_default_def
  owners_def example_time_str_to_utc_def Let_def dict_set_def dict_merge_def

lemma build_documents_Inr:
  assumes "build_documents E now file_name raw md fm = Inr docs"
  shows "\<exists>tu fin po so.
           resolve_time_updated E now (merge_metadata md fm) = Inr tu \<and>
           final_time_updated E (merge_metadata md fm) tu = Inr fin \<and>
           owners (dict_get (merge_metadata md fm) ''primary_owners'') = Inr po \<and>
           owners (dict_get (merge_metadata md fm) ''secondary_owners'') = Inr so \<and>
           docs = [\<lparr>doc_id = ''FILE_CONNECTOR__'' @ file_name,
                    sections = [\<lparr>section_link = dict_get (merge_metadata md fm) ''link'',
                                 section_text = strip raw\<rparr>],
                    source = FILE,
                    semantic_identifier =
                      (if truthy (dict_get (merge_metadata md fm) ''file_display_name'')
                       then dict_get (merge_metadata md fm) ''file_display_name''
                       else PStr (basename file_name)),
                    doc_updated_at = fin,
                    primary_owners = po,
                    secondary_owners = so,
                    doc_metadata = metadata_tags (merge_metadata md fm)\<rparr>]"
  using assms unfolding build_documents_def Let_def
  by (auto split: sum.splits)

lemma process_file_Inr:
  assumes "fst (process_file E n file_name file md pp) = Inr docs"
  shows "docs = [] \<or>
         (\<exists>raw fm. extract_text E (get_file_ext E file_name) file_name file pp = Inr (raw, fm) \<and>
                    build_documents E (utcnow E n) file_name raw md fm = Inr docs)"
  using assms unfolding process_file_def Let_def
  by (auto split: if_splits sum.splits prod.splits)

lemma process_file_doc:
  assumes "fst (process_file E n file_name file md pp) = Inr docs" and "d \<in> set docs"
  shows "\<exists>raw fm. extract_text E (get_file_ext E file_name) file_name file pp = Inr (raw, fm) \<and>
                    build_documents E (utcnow E n) file_name raw md fm = Inr [d] \<and> docs = [d]"
proof -
  from process_file_Inr[OF assms(1)] assms(2) obtain raw fm where
    a: "extract_text E (get_file_ext E file_name) file_name file pp = Inr (raw, fm)" and
    b: "build_documents E (utcnow E n) file_name raw md fm = Inr docs" by auto
  from build_documents_Inr[OF b] assms(2) have "docs = [d]" by auto
  with a b show ?thesis by auto
qed

subsection \<open>C5: the identity of a document\<close>

text \<open>
  C5. Every document that \<^verbatim>\<open>_process_file\<close> produces for a file name has the id
  \<^verbatim>\<open>FILE_CONNECTOR__\<close> followed by that name. Two calls on the same name, whatever the
  environment, the clock, the file, the caller's metadata and the password are, produce
  documents with the same id.
\<close>

theorem process_file_id:
  assumes "fst (process_file E1 n1 file_name file1 md1 pp1) = Inr docs1" and "d1 \<in> set docs1"
      and "fst (process_file E2 n2 file_name file2 md2 pp2) = Inr docs2" and "d2 \<in> set docs2"
  shows "doc_id d1 = ''FILE_CONNECTOR__'' @ file_name \<and> doc_id d2 = doc_id d1"
proof -
  from process_file_doc[OF assms(1,2)] obtain raw1 fm1 where
    "build_documents E1 (utcnow E1 n1) file_name raw1 md1 fm1 = Inr [d1]" by blast
  from build_documents_Inr[OF this] have 1: "doc_id d1 = ''FILE_CONNECTOR__'' @ file_name" by auto
  from process_file_doc[OF assms(3,4)] obtain raw2 fm2 where
    "build_documents E2 (utcnow E2 n2) file_name raw2 md2 fm2 = Inr [d2]" by blast
  from build_documents_Inr[OF this] have 2: "doc_id d2 = ''FILE_CONNECTOR__'' @ file_name" by auto
  from 1 2 show ?thesis by simp
qed

theorem process_file_id_witness:
  "\<exists>d1 d2.
     fst (process_file (example_env []) 0 ''a/doc.txt'' (TextFile ''hi'' []) None None) = Inr [d1] \<and>
     fst (process_file (example_env []) 5 ''a/doc.txt'' (TextFile ''hi'' [])
            (Some [(''link'', PStr ''x'')]) (Some ''pw'')) = Inr [d2] \<and>
     doc_id d1 = ''FILE_CONNECTOR__a/doc.txt'' \<and> doc_id d2 = doc_id d1"
proof -
  obtain d1 where h1:
    "fst (process_file (example_env []) 0 ''a/doc.txt'' (TextFile ''hi'' []) None None) = Inr [d1]"
    by (simp add: example_defs)
  obtain d2 where h2:
    "fst (process_file (example_env []) 5 ''a/doc.txt'' (TextFile ''hi'' [])
            (Some [(''link'', PStr ''x'')]) (Some ''pw'')) = Inr [d2]"
    by (simp add: example_defs)
  from process_file_id[OF h1 _ h2, of d1 d2]
  have "doc_id d1 = ''FILE_CONNECTOR__a/doc.txt'' \<and> doc_id d2 = doc_id d1" by simp
  with h1 h2 show ?thesis by blast
qed

subsection \<open>The whitespace of a stripped string\<close>

lemma last_dropWhile: "dropWhile P xs \<noteq> [] \<Longrightarrow> last (dropWhile P xs) = last xs"
  by (induction xs) (auto split: if_splits)

lemma trimmed_strip: "trimmed (strip s)"
proof (cases "strip s")
  case Nil
  then show ?thesis by (simp add: trimmed_def)
next
  case (Cons c cs)
  define t where "t = dropWhile isspace s"
  define u where "u = dropWhile isspace (rev t)"
  have su: "strip s = rev u" by (simp add: strip_def t_def u_def)
  with Cons have une: "u \<noteq> []" by auto
  then have tne: "t \<noteq> []" by (auto simp: u_def)
  have "last (strip s) = hd u" using une by (simp add: su last_rev)
  moreover have "\<not> isspace (hd u)" using une unfolding u_def by (rule hd_dropWhile)
  ultimately have l: "\<not> isspace (last (strip s))" by simp
  have "hd (strip s) = last u" using une by (simp add: su hd_rev)
  also have "\<dots> = last (rev t)" using une unfolding u_def by (rule last_dropWhile)
  also have "\<dots> = hd t" using tne by (simp add: last_rev)
  finally have "hd (strip s) = hd t" .
  moreover have "\<not> isspace (hd t)" using tne unfolding t_def by (rule hd_dropWhile)
  ultimately have h: "\<not> isspace (hd (strip s))" by simp
  from h l Cons show ?thesis by (simp add: trimmed_def)
qed

subsection \<open>Invariants of the loops of \<^verbatim>\<open>load_from_state\<close>\<close>

text \<open>A property of the documents of the state before the loop, and of every document
  that an entry of the loop produces, holds for every document of the state after it; so
  a property of every document that an entry produces holds in every batch.\<close>

lemma files_loop_docs:
  assumes "files_loop E c cur st entries = (st', r)"
      and "\<forall>d \<in> set (all_documents st). P d"
      and "\<And>n entry docs d. entry \<in> set entries \<Longrightarrow>
             fst (process_entry E c cur n entry) = Inr docs \<Longrightarrow> d \<in> set docs \<Longrightarrow> P d"
    shows "\<forall>d \<in> set (all_documents st'). P d"
  using assms
proof (induction entries arbitrary: st)
  case Nil
  then show ?case by simp
next
  case (Cons entry entries)
  have tl: "\<And>n e docs d. e \<in> set entries \<Longrightarrow>
             fst (process_entry E c cur n e) = Inr docs \<Longrightarrow> d \<in> set docs \<Longrightarrow> P d"
    using Cons.prems(3) by (meson list.set_intros(2))
  show ?case
  proof (cases "process_entry E c cur (clock st) entry")
    case (Pair res n)
    show ?thesis
    proof (cases res)
      case (Inl e)
      with Pair Cons.prems(1,2) show ?thesis by (fastforce simp: all_documents_def)
    next
      case (Inr docs)
      with Pair have "fst (process_entry E c cur (clock st) entry) = Inr docs" by simp
      from Cons.prems(3)[OF _ this] have pd: "\<forall>d \<in> set docs. P d" by simp
      show ?thesis
      proof (cases "batch_size c \<le> int (length (documents st @ docs))")
        case True
        with Pair Inr Cons.prems(1) have
          "files_loop E c cur (st\<lparr>documents := [], yielded := yielded st @ [documents st @ docs], clock := n\<rparr>) entries = (st', r)"
          by (simp add: Let_def)
        moreover have "\<forall>d \<in> set (all_documents (st\<lparr>documents := [], yielded := yielded st @ [documents st @ docs], clock := n\<rparr>)). P d"
          using Cons.prems(2) pd by (auto simp: all_documents_def)
        ultimately show ?thesis using tl by (rule Cons.IH)
      next
        case False
        with Pair Inr Cons.prems(1) have
          "files_loop E c cur (st\<lparr>documents := documents st @ docs, clock := n\<rparr>) entries = (st', r)"
          by (simp add: Let_def)
        moreover have "\<forall>d \<in> set (all_documents (st\<lparr>documents := documents st @ docs, clock := n\<rparr>)). P d"
          using Cons.prems(2) pd by (auto simp: all_documents_def)
        ultimately show ?thesis using tl by (rule Cons.IH)
      qed
    qed
  qed
qed

lemma locations_loop_docs:
  assumes P: "\<And>cur n entry docs d. fst (process_entry E c cur n entry) = Inr docs \<Longrightarrow> d \<in> set docs \<Longrightarrow> P d"
      and "\<forall>d \<in> set (all_documents st). P d"
      and "locations_loop E c st locations = (st', r)"
    shows "\<forall>d \<in> set (all_documents st'). P d"
  using assms(2,3)
proof (induction locations arbitrary: st)
  case Nil
  then show ?case by simp
next
  case (Cons file_path rest)
  obtain files raised where rf: "read_files_and_metadata E file_path = (files, raised)"
    by (cases "read_files_and_metadata E file_path")
  obtain st1 r1 where fl: "files_loop E c (utcnow E (clock st)) (st\<lparr>clock := Suc (clock st)\<rparr>) files = (st1, r1)"
    by (cases "files_loop E c (utcnow E (clock st)) (st\<lparr>clock := Suc (clock st)\<rparr>) files")
  have p0: "\<forall>d \<in> set (all_documents (st\<lparr>clock := Suc (clock st)\<rparr>)). P d"
    using Cons.prems(1) by (simp add: all_documents_def)
  have p1: "\<forall>d \<in> set (all_documents st1). P d"
  proof (rule files_loop_docs[OF fl p0])
    fix n entry docs d
    assume "fst (process_entry E c (utcnow E (clock st)) n entry) = Inr docs" and "d \<in> set docs"
    then show "P d" by (rule P)
  qed
  show ?case
  proof (cases "r1 = None \<and> raised = None")
    case True
    with Cons.prems(2) rf fl have "locations_loop E c st1 rest = (st', r)" by (simp add: Let_def)
    with p1 show ?thesis by (rule Cons.IH)
  next
    case False
    with Cons.prems(2) rf fl have "st' = st1" by (auto simp: Let_def split: option.splits)
    with p1 show ?thesis by simp
  qed
qed

lemma load_from_state_docs:
  assumes P: "\<And>cur n entry docs d. fst (process_entry E c cur n entry) = Inr docs \<Longrightarrow> d \<in> set docs \<Longrightarrow> P d"
      and "load_from_state E c = (batches, r)"
    shows "\<forall>b \<in> set batches. \<forall>d \<in> set b. P d"
proof -
  obtain st r' where ll: "locations_loop E c \<lparr>documents = [], yielded = [], clock = 0\<rparr> (file_locations c) = (st, r')"
    by (cases "locations_loop E c \<lparr>documents = [], yielded = [], clock = 0\<rparr> (file_locations c)")
  have "\<forall>d \<in> set (all_documents \<lparr>documents = [], yielded = [], clock = 0\<rparr>). P d"
    by (simp add: all_documents_def)
  from locations_loop_docs[of E c P, OF P this ll] have a: "\<forall>d \<in> set (all_documents st). P d" .
  from assms(2) ll have "set batches \<subseteq> set (yielded st) \<union> {documents st}"
    by (auto simp: load_from_state_def split: option.splits if_splits)
  with a show ?thesis by (fastforce simp: all_documents_def)
qed

lemmas loop_defs =
  load_from_state_def read_files_and_metadata_def process_entry_def dirname_def path_join_def
  metadata_tags_def reserved_keys_def strip_def isspace_def suffix_to_prefix

subsection \<open>C6: no leading or trailing whitespace in a section\<close>

text \<open>
  C6. In every batch that \<^verbatim>\<open>load_from_state\<close> yields, whether the run ends
  normally or with an exception, the text of every section of every document has no
  leading and no trailing whitespace, for every format and every input.
\<close>

theorem section_text_trimmed:
  assumes "load_from_state E c = (batches, r)" and "b \<in> set batches" and "d \<in> set b" and "s \<in> set (sections d)"
  shows "trimmed (section_text s)"
proof -
  have "\<forall>b \<in> set batches. \<forall>d \<in> set b. \<forall>s \<in> set (sections d). trimmed (section_text s)"
  proof (rule load_from_state_docs[OF _ assms(1)])
    fix cur n entry docs d
    assume a: "fst (process_entry E c cur n entry) = Inr docs" and b: "d \<in> set docs"
    obtain file_name f md where e: "entry = (file_name, f, md)" by (cases entry)
    from a e process_file_doc[OF _ b] obtain raw fm mdx where
      "build_documents E (utcnow E n) file_name raw mdx fm = Inr [d]"
      unfolding process_entry_def by fastforce
    from build_documents_Inr[OF this]
    show "\<forall>s \<in> set (sections d). trimmed (section_text s)" by (auto simp: trimmed_strip)
  qed
  with assms show ?thesis by blast
qed

theorem section_text_trimmed_witness:
  "\<exists>d s. load_from_state (example_env [(''doc.txt'', TextFile '' hi  '' [])])
            \<lparr>file_locations = [''doc.txt''], batch_size = 2, pdf_pass = None\<rparr> = ([[d]], None) \<and>
          sections d = [s] \<and> section_text s = ''hi'' \<and> trimmed (section_text s)"
proof -
  have "map_prod (map (map (\<lambda>d. map section_text (sections d)))) id
          (load_from_state (example_env [(''doc.txt'', TextFile '' hi  '' [])])
             \<lparr>file_locations = [''doc.txt''], batch_size = 2, pdf_pass = None\<rparr>)
        = ([[[''hi'']]], None)"
    by code_simp
  then obtain d s where h: "load_from_state (example_env [(''doc.txt'', TextFile '' hi  '' [])])
            \<lparr>file_locations = [''doc.txt''], batch_size = 2, pdf_pass = None\<rparr> = ([[d]], None)"
     and s: "sections d = [s]" and t: "section_text s = ''hi''"
    by (cases "load_from_state (example_env [(''doc.txt'', TextFile '' hi  '' [])])
            \<lparr>file_locations = [''doc.txt''], batch_size = 2, pdf_pass = None\<rparr>") auto
  from section_text_trimmed[OF h, of "[d]" d s] s have "trimmed (section_text s)" by simp
  with h s t show ?thesis by iprover
qed

subsection \<open>C3: the sizes of the batches\<close>

lemma ceil_exact: "0 < (B::nat) \<Longrightarrow> (k * B + B - 1) div B = k"
proof -
  assume b: "0 < B"
  then have "k * B + B - 1 = (B - 1) + k * B" by simp
  then have "(k * B + B - 1) div B = ((B - 1) + k * B) div B" by simp
  also have "\<dots> = (B - 1) div B + k" using b by (simp only: div_mult_self1 [OF less_imp_neq[THEN not_sym]] ) 
  also have "\<dots> = k" using b by simp
  finally show ?thesis .
qed

lemma ceil_rest: "0 < l \<Longrightarrow> l < (B::nat) \<Longrightarrow> (k * B + l + B - 1) div B = Suc k"
proof -
  assume l: "0 < l" "l < B"
  then have "k * B + l + B - 1 = (l - 1) + Suc k * B" by simp
  then have "(k * B + l + B - 1) div B = ((l - 1) + Suc k * B) div B" by simp
  also have "\<dots> = (l - 1) div B + Suc k" using l by (simp only: div_mult_self1)
  also have "\<dots> = Suc k" using l by simp
  finally show ?thesis .
qed

lemma length_concat_const: "\<forall>b \<in> set ys. length b = B \<Longrightarrow> length (concat ys) = length ys * B"
  by (induction ys) auto

lemma process_entry_length:
  assumes "fst (process_entry E c cur n entry) = Inr docs"
  shows "length docs \<le> 1"
proof -
  obtain file_name f md where e: "entry = (file_name, f, md)" by (cases entry)
  with assms obtain mdx where "fst (process_file E n file_name f mdx (pdf_pass c)) = Inr docs"
    unfolding process_entry_def by auto
  from process_file_Inr[OF this] show ?thesis
    by (auto dest: build_documents_Inr)
qed

lemma files_loop_batch_inv:
  assumes "1 \<le> batch_size c" and "batch_inv (nat (batch_size c)) st"
      and "files_loop E c cur st entries = (st', r)"
    shows "batch_inv (nat (batch_size c)) st'"
  using assms(2,3)
proof (induction entries arbitrary: st)
  case Nil
  then show ?case by simp
next
  case (Cons entry entries)
  show ?case
  proof (cases "process_entry E c cur (clock st) entry")
    case (Pair res n)
    show ?thesis
    proof (cases res)
      case (Inl e)
      with Pair Cons.prems show ?thesis by (auto simp: batch_inv_def)
    next
      case (Inr docs)
      with Pair have "fst (process_entry E c cur (clock st) entry) = Inr docs" by simp
      from process_entry_length[OF this] have len: "length docs \<le> 1" .
      show ?thesis
      proof (cases "batch_size c \<le> int (length (documents st @ docs))")
        case True
        with Pair Inr Cons.prems(2) have
          "files_loop E c cur (st\<lparr>documents := [], yielded := yielded st @ [documents st @ docs], clock := n\<rparr>) entries = (st', r)"
          by (simp add: Let_def)
        moreover have "batch_inv (nat (batch_size c)) (st\<lparr>documents := [], yielded := yielded st @ [documents st @ docs], clock := n\<rparr>)"
          using Cons.prems(1) len True assms(1) by (auto simp: batch_inv_def)
        ultimately show ?thesis by (rule Cons.IH[rotated])
      next
        case False
        with Pair Inr Cons.prems(2) have
          "files_loop E c cur (st\<lparr>documents := documents st @ docs, clock := n\<rparr>) entries = (st', r)"
          by (simp add: Let_def)
        moreover have "batch_inv (nat (batch_size c)) (st\<lparr>documents := documents st @ docs, clock := n\<rparr>)"
          using Cons.prems(1) len False assms(1) by (auto simp: batch_inv_def)
        ultimately show ?thesis by (rule Cons.IH[rotated])
      qed
    qed
  qed
qed

lemma locations_loop_batch_inv:
  assumes "1 \<le> batch_size c" and "batch_inv (nat (batch_size c)) st"
      and "locations_loop E c st locations = (st', r)"
    shows "batch_inv (nat (batch_size c)) st'"
  using assms(2,3)
proof (induction locations arbitrary: st)
  case Nil
  then show ?case by simp
next
  case (Cons file_path rest)
  obtain files raised where rf: "read_files_and_metadata E file_path = (files, raised)"
    by (cases "read_files_and_metadata E file_path")
  obtain st1 r1 where fl: "files_loop E c (utcnow E (clock st)) (st\<lparr>clock := Suc (clock st)\<rparr>) files = (st1, r1)"
    by (cases "files_loop E c (utcnow E (clock st)) (st\<lparr>clock := Suc (clock st)\<rparr>) files")
  have "batch_inv (nat (batch_size c)) (st\<lparr>clock := Suc (clock st)\<rparr>)"
    using Cons.prems(1) by (simp add: batch_inv_def)
  from files_loop_batch_inv[OF assms(1) this fl]
  have p1: "batch_inv (nat (batch_size c)) st1" .
  show ?case
  proof (cases "r1 = None \<and> raised = None")
    case True
    with Cons.prems(2) rf fl have "locations_loop E c st1 rest = (st', r)" by (simp add: Let_def)
    with p1 show ?thesis by (rule Cons.IH)
  next
    case False
    with Cons.prems(2) rf fl have "st' = st1" by (auto simp: Let_def split: option.splits)
    with p1 show ?thesis by simp
  qed
qed

text \<open>The batches yielded: their number against the documents they hold, and their sizes.\<close>

lemma yielded_batch_shapes:
  assumes "load_from_state E c = (batches, r)" and "1 \<le> batch_size c"
  shows "length batches = (length (concat batches) + nat (batch_size c) - 1) div nat (batch_size c) \<and>
         (\<forall>b \<in> set (butlast batches). length b = nat (batch_size c)) \<and>
         (batches \<noteq> [] \<longrightarrow> 1 \<le> length (last batches) \<and> length (last batches) \<le> nat (batch_size c)) \<and>
         [] \<notin> set batches"
proof -
  define B where "B = nat (batch_size c)"
  have B: "0 < B" using assms(2) by (simp add: B_def)
  obtain st r' where ll: "locations_loop E c \<lparr>documents = [], yielded = [], clock = 0\<rparr> (file_locations c) = (st, r')"
    by (cases "locations_loop E c \<lparr>documents = [], yielded = [], clock = 0\<rparr> (file_locations c)")
  have "batch_inv B \<lparr>documents = [], yielded = [], clock = 0\<rparr>"
    using B by (simp add: batch_inv_def)
  from locations_loop_batch_inv[OF assms(2) this[unfolded B_def] ll]
  have inv: "length (documents st) < B" "\<forall>b \<in> set (yielded st). length b = B"
    by (simp_all add: batch_inv_def B_def list_all_iff)
  from assms(1) ll consider
    (full) "batches = yielded st"
    | (rest) "batches = yielded st @ [documents st]" "documents st \<noteq> []"
    by (auto simp: load_from_state_def split: option.splits if_splits)
  then have "length batches = (length (concat batches) + B - 1) div B \<and>
         (\<forall>b \<in> set (butlast batches). length b = B) \<and>
         (batches \<noteq> [] \<longrightarrow> 1 \<le> length (last batches) \<and> length (last batches) \<le> B) \<and>
         [] \<notin> set batches"
  proof cases
    case full
    have 1: "length (concat batches) = length batches * B"
      using inv(2) full by (simp add: length_concat_const)
    have 2: "\<forall>b \<in> set (butlast batches). length b = B"
      using inv(2) full by (auto dest: in_set_butlastD)
    have 3: "batches \<noteq> [] \<longrightarrow> length (last batches) = B"
      using inv(2) full by auto
    have 4: "[] \<notin> set batches" using inv(2) full B by auto
    have 5: "(length batches * B + B - 1) div B = length batches" by (rule ceil_exact[OF B])
    from 1 2 3 4 5 B show ?thesis by simp
  next
    case rest
    have 1: "length (concat batches) = length (yielded st) * B + length (documents st)"
      using inv(2) rest by (simp add: length_concat_const)
    have l: "0 < length (documents st)" using rest(2) by simp
    have 4: "[] \<notin> set batches" using inv(2) rest B by auto
    have 5: "(length (yielded st) * B + length (documents st) + B - 1) div B = Suc (length (yielded st))"
      by (rule ceil_rest[OF l inv(1)])
    have 6: "1 \<le> length (documents st)" using rest(2) by (cases "documents st") simp_all
    from 1 inv rest 4 5 6 show ?thesis by (simp add: butlast_append)
  qed
  then show ?thesis by (simp add: B_def)
qed

text \<open>The documents in the state of the loops are those produced so far: the loops with
  batching hold, in the batches yielded and the batch in progress, the documents of the
  loops without batching, in the same order.\<close>

lemma files_loop_produced:
  assumes "files_loop E c cur st entries = (st', r)"
  shows "\<exists>ds. files_produced E c cur (clock st) entries = (ds, clock st', r) \<and>
              all_documents st' = all_documents st @ ds"
  using assms
proof (induction entries arbitrary: st)
  case Nil
  then show ?case by auto
next
  case (Cons entry entries)
  show ?case
  proof (cases "process_entry E c cur (clock st) entry")
    case (Pair res n)
    show ?thesis
    proof (cases res)
      case (Inl e)
      with Pair Cons.prems show ?thesis by (auto simp: all_documents_def)
    next
      case (Inr docs)
      let ?s = "if batch_size c \<le> int (length (documents st @ docs))
                then st\<lparr>documents := [], yielded := yielded st @ [documents st @ docs], clock := n\<rparr>
                else st\<lparr>documents := documents st @ docs, clock := n\<rparr>"
      from Pair Inr Cons.prems have fl: "files_loop E c cur ?s entries = (st', r)"
        by (simp add: Let_def split: if_splits)
      have a: "all_documents ?s = all_documents st @ docs" and k: "clock ?s = n"
        by (simp_all add: all_documents_def)
      from Cons.IH[OF fl] obtain ds where
        "files_produced E c cur (clock ?s) entries = (ds, clock st', r)" and
        "all_documents st' = all_documents ?s @ ds" by blast
      then have ih: "files_produced E c cur n entries = (ds, clock st', r)"
        and ad: "all_documents st' = all_documents st @ docs @ ds"
        by (simp_all only: a k append_assoc)
      have "files_produced E c cur (clock st) (entry # entries) = (docs @ ds, clock st', r)"
        by (simp add: Pair Inr ih)
      with ad show ?thesis by blast
    qed
  qed
qed

lemma locations_loop_produced:
  assumes "locations_loop E c st locations = (st', r)"
  shows "\<exists>ds. locations_produced E c (clock st) locations = (ds, r) \<and>
              all_documents st' = all_documents st @ ds"
  using assms
proof (induction locations arbitrary: st)
  case Nil
  then show ?case by auto
next
  case (Cons file_path rest)
  obtain files raised where rf: "read_files_and_metadata E file_path = (files, raised)"
    by (cases "read_files_and_metadata E file_path")
  obtain st1 r1 where fl:
    "files_loop E c (utcnow E (clock st)) (st\<lparr>clock := Suc (clock st)\<rparr>) files = (st1, r1)"
    by (cases "files_loop E c (utcnow E (clock st)) (st\<lparr>clock := Suc (clock st)\<rparr>) files")
  from files_loop_produced[OF fl] obtain ds1 where
    fp: "files_produced E c (utcnow E (clock st)) (Suc (clock st)) files = (ds1, clock st1, r1)" and
    a1: "all_documents st1 = all_documents st @ ds1"
    by (auto simp: all_documents_def)
  show ?case
  proof (cases "r1 = None \<and> raised = None")
    case True
    with Cons.prems rf fl have ll: "locations_loop E c st1 rest = (st', r)" by (simp add: Let_def)
    from Cons.IH[OF ll] obtain ds2 where
      lp: "locations_produced E c (clock st1) rest = (ds2, r)" and
      a2: "all_documents st' = all_documents st1 @ ds2" by blast
    have "locations_produced E c (clock st) (file_path # rest) = (ds1 @ ds2, r)"
      using True by (simp add: rf fp lp)
    with a1 a2 show ?thesis by simp
  next
    case False
    with Cons.prems rf fl have s: "st' = st1"
      and e: "r = (case r1 of Some e \<Rightarrow> Some e | None \<Rightarrow> raised)"
      by (auto simp: Let_def split: option.splits)
    have "locations_produced E c (clock st) (file_path # rest) = (ds1, r)"
      using False e by (auto simp: rf fp split: option.splits)
    with a1 s show ?thesis by simp
  qed
qed

lemma load_from_state_state:
  assumes "load_from_state E c = (batches, r)"
  shows "\<exists>st. locations_loop E c \<lparr>documents = [], yielded = [], clock = 0\<rparr> (file_locations c) = (st, r) \<and>
              batches = (if r = None \<and> documents st \<noteq> [] then yielded st @ [documents st]
                         else yielded st)"
proof -
  obtain st r' where ll:
    "locations_loop E c \<lparr>documents = [], yielded = [], clock = 0\<rparr> (file_locations c) = (st, r')"
    by (cases "locations_loop E c \<lparr>documents = [], yielded = [], clock = 0\<rparr> (file_locations c)")
  with assms show ?thesis
    by (auto simp: load_from_state_def split: option.splits if_splits)
qed

text \<open>
  C3. Let the batch size \<open>B\<close> be at least 1. A run of \<^verbatim>\<open>load_from_state\<close> that ends
  normally yields the documents that the run produced, \<open>N\<close> of them, all and in order, in
  exactly \<open>ceil(N/B)\<close> batches. Every batch but the last has exactly \<open>B\<close> documents, the last
  has between 1 and \<open>B\<close>, and no batch is empty. In a run that an exception ends, the
  batches yielded before it have these sizes too and hold the documents produced, in order,
  but for fewer than \<open>B\<close> last ones, those of the batch in progress.
\<close>

theorem batch_boundary:
  assumes "load_from_state E c = (batches, r)" and "1 \<le> batch_size c"
  shows "(r = None \<longrightarrow>
            concat batches = produced_documents E c \<and>
            length batches =
              (length (produced_documents E c) + nat (batch_size c) - 1) div nat (batch_size c)) \<and>
         (\<exists>lost. produced_documents E c = concat batches @ lost \<and> length lost < nat (batch_size c)) \<and>
         length batches = (length (concat batches) + nat (batch_size c) - 1) div nat (batch_size c) \<and>
         (\<forall>b \<in> set (butlast batches). length b = nat (batch_size c)) \<and>
         (batches \<noteq> [] \<longrightarrow> 1 \<le> length (last batches) \<and> length (last batches) \<le> nat (batch_size c)) \<and>
         [] \<notin> set batches"
proof -
  note shapes = yielded_batch_shapes[OF assms]
  from load_from_state_state[OF assms(1)] obtain st where
    ll: "locations_loop E c \<lparr>documents = [], yielded = [], clock = 0\<rparr> (file_locations c) = (st, r)" and
    b: "batches = (if r = None \<and> documents st \<noteq> [] then yielded st @ [documents st] else yielded st)"
    by blast
  have "batch_inv (nat (batch_size c)) \<lparr>documents = [], yielded = [], clock = 0\<rparr>"
    using assms(2) by (simp add: batch_inv_def)
  from locations_loop_batch_inv[OF assms(2) this ll]
  have inv: "length (documents st) < nat (batch_size c)" by (simp add: batch_inv_def)
  from locations_loop_produced[OF ll] have
    p: "produced_documents E c = concat (yielded st) @ documents st"
    by (auto simp: produced_documents_def all_documents_def)
  have n: "r = None \<longrightarrow> concat batches = produced_documents E c"
    using b p by auto
  have l: "\<exists>lost. produced_documents E c = concat batches @ lost \<and> length lost < nat (batch_size c)"
  proof (cases "r = None")
    case True
    with n have "produced_documents E c = concat batches @ []" by simp
    moreover have "length ([] :: document list) < nat (batch_size c)" using assms(2) by simp
    ultimately show ?thesis by blast
  next
    case False
    with b p have "produced_documents E c = concat batches @ documents st" by simp
    with inv show ?thesis by blast
  qed
  from shapes n l show ?thesis by metis
qed

theorem batch_boundary_witness:
  "\<exists>batches.
     load_from_state
       (example_env [(''in/a.zip'', ZipFile [(''x.txt'', TextFile ''x'' [], []),
                                            (''y.exe'', Bytes ''MZ'', []),
                                            (''z.md'', TextFile ''z'' [], [])]),
                     (''c.txt'', TextFile ''c'' [])])
       \<lparr>file_locations = [''in/a.zip'', ''c.txt''], batch_size = 2, pdf_pass = None\<rparr>
       = (batches, None) \<and>
     length (produced_documents
       (example_env [(''in/a.zip'', ZipFile [(''x.txt'', TextFile ''x'' [], []),
                                            (''y.exe'', Bytes ''MZ'', []),
                                            (''z.md'', TextFile ''z'' [], [])]),
                     (''c.txt'', TextFile ''c'' [])])
       \<lparr>file_locations = [''in/a.zip'', ''c.txt''], batch_size = 2, pdf_pass = None\<rparr>) = 3 \<and>
     concat batches = produced_documents
       (example_env [(''in/a.zip'', ZipFile [(''x.txt'', TextFile ''x'' [], []),
                                            (''y.exe'', Bytes ''MZ'', []),
                                            (''z.md'', TextFile ''z'' [], [])]),
                     (''c.txt'', TextFile ''c'' [])])
       \<lparr>file_locations = [''in/a.zip'', ''c.txt''], batch_size = 2, pdf_pass = None\<rparr> \<and>
     map length batches = [2, 1] \<and>
     length batches = (3 + 2 - 1) div 2 \<and> [] \<notin> set batches"
proof -
  let ?E = "example_env [(''in/a.zip'', ZipFile [(''x.txt'', TextFile ''x'' [], []),
                                            (''y.exe'', Bytes ''MZ'', []),
                                            (''z.md'', TextFile ''z'' [], [])]),
                     (''c.txt'', TextFile ''c'' [])]"
  let ?c = "\<lparr>file_locations = [''in/a.zip'', ''c.txt''], batch_size = 2, pdf_pass = None\<rparr>"
  have "map_prod (map length) id (load_from_state ?E ?c) = ([2, 1], None)"
    by code_simp
  then obtain batches where h: "load_from_state ?E ?c = (batches, None)"
    and m: "map length batches = [2, 1]"
    by (cases "load_from_state ?E ?c") simp
  have p: "length (produced_documents ?E ?c) = 3" by code_simp
  from batch_boundary[OF h] p have
    "concat batches = produced_documents ?E ?c \<and>
     length batches = (3 + 2 - 1) div 2 \<and> [] \<notin> set batches" by simp
  with h m p show ?thesis by iprover
qed

subsection \<open>Lookups in the merged metadata\<close>

lemma map_of_dict_set: "map_of (dict_set d k v) = (map_of d)(k \<mapsto> v)"
  by (simp add: dict_set_def AList.update_conv')

lemma map_of_dict_merge:
  "map_of (dict_merge a b) k = (case map_of (rev b) k of None \<Rightarrow> map_of a k | Some v \<Rightarrow> Some v)"
proof (induction b arbitrary: a)
  case Nil
  show ?case by (simp add: dict_merge_def)
next
  case (Cons x b)
  obtain k' v' where x: "x = (k', v')" by (cases x)
  have "dict_merge a (x # b) = dict_merge (dict_set a k' v') b"
    by (simp add: dict_merge_def x)
  then show ?case
    by (simp add: Cons.IH map_of_dict_set x map_add_def split: option.splits)
qed

lemma map_of_rev_distinct: "distinct (map fst b) \<Longrightarrow> map_of (rev b) k = map_of b k"
proof (induction b)
  case Nil
  show ?case by simp
next
  case (Cons x b)
  obtain k' v' where x: "x = (k', v')" by (cases x)
  from Cons.prems x have nin: "k' \<notin> fst ` set b" and d: "distinct (map fst b)" by auto
  from nin have "map_of b k' = None" by (simp add: map_of_eq_None_iff)
  with Cons.IH[OF d] show ?case
    by (auto simp: x map_add_def split: option.splits)
qed

lemma map_of_dict_merge_absent:
  "k \<notin> fst ` set b \<Longrightarrow> map_of (dict_merge a b) k = map_of a k"
proof -
  assume "k \<notin> fst ` set b"
  then have "k \<notin> fst ` set (rev b)" by (simp only: set_rev not_False_eq_True)
  then have "map_of (rev b) k = None" by (simp only: map_of_eq_None_iff not_False_eq_True)
  then show ?thesis by (simp add: map_of_dict_merge)
qed

lemma map_of_merge_metadata_wins:
  assumes "map_of fm k = Some v" and "distinct (map fst fm)"
  shows "map_of (merge_metadata md fm) k = Some v"
proof (cases md)
  case None
  with assms show ?thesis by (simp add: merge_metadata_def)
next
  case (Some m)
  from assms have "map_of (rev fm) k = Some v" by (simp add: map_of_rev_distinct)
  then have "map_of (dict_merge m fm) k = Some v" by (simp add: map_of_dict_merge)
  with assms(1) Some show ?thesis by (simp add: merge_metadata_def)
qed

lemma map_of_metadata_tags:
  "map_of (metadata_tags al) k = (if k \<in> set reserved_keys then None else map_of al k)"
  unfolding metadata_tags_def
  by (induction al) auto

lemma dict_get_Some: "map_of d k = Some v \<Longrightarrow> dict_get d k = v"
  by (simp add: dict_get_def)

lemma dict_get_None: "map_of d k = None \<Longrightarrow> dict_get d k = PNone"
  by (simp add: dict_get_def)

subsection \<open>C2: the extractor's metadata wins\<close>

text \<open>
  C2. When the caller's metadata and the extractor's metadata (a dict: its keys are
  distinct) both define a key, the merged metadata has the extractor's value at that key,
  and so has the document produced: in its tags when the key is not reserved, as the link
  of its section when the key is \<^verbatim>\<open>link\<close>, and as its semantic identifier when the
  key is \<^verbatim>\<open>file_display_name\<close> and the value is truthy.
\<close>

theorem extractor_metadata_wins:
  assumes "fst (process_file E n file_name f (Some m) pp) = Inr docs" and "d \<in> set docs"
      and "extract_text E (get_file_ext E file_name) file_name f pp = Inr (raw, fm)"
      and "distinct (map fst fm)"
      and "map_of m k = Some v1" and "map_of fm k = Some v2"
  shows "map_of (merge_metadata (Some m) fm) k = Some v2 \<and>
         (k \<notin> set reserved_keys \<longrightarrow> map_of (doc_metadata d) k = Some v2) \<and>
         (k = ''link'' \<longrightarrow> map section_link (sections d) = [v2]) \<and>
         (k = ''file_display_name'' \<and> truthy v2 \<longrightarrow> semantic_identifier d = v2)"
proof -
  have w: "map_of (merge_metadata (Some m) fm) k = Some v2"
    using assms(6,4) by (rule map_of_merge_metadata_wins)
  from process_file_doc[OF assms(1,2)] assms(3) have
    "build_documents E (utcnow E n) file_name raw (Some m) fm = Inr [d]" by auto
  from build_documents_Inr[OF this] w show ?thesis
    by (auto simp: map_of_metadata_tags dict_get_Some)
qed

theorem extractor_metadata_wins_witness:
  "\<exists>d. fst (process_file (example_env []) 0 ''doc.txt''
              (TextFile ''body'' [(''link'', PStr ''from-file'')])
              (Some [(''link'', PStr ''from-caller'')]) None) = Inr [d] \<and>
        map section_link (sections d) = [PStr ''from-file'']"
proof -
  obtain d where h: "fst (process_file (example_env []) 0 ''doc.txt''
              (TextFile ''body'' [(''link'', PStr ''from-file'')])
              (Some [(''link'', PStr ''from-caller'')]) None) = Inr [d]"
    by (simp add: example_defs)
  have x: "extract_text (example_env []) (get_file_ext (example_env []) ''doc.txt'') ''doc.txt''
             (TextFile ''body'' [(''link'', PStr ''from-file'')]) None
           = Inr (''body'', [(''link'', PStr ''from-file'')])"
    by (simp add: example_defs)
  from extractor_metadata_wins[OF h _ x, of d "''link''" "PStr ''from-caller''" "PStr ''from-file''"]
  have "map section_link (sections d) = [PStr ''from-file'']" by simp
  with h show ?thesis by iprover
qed

subsection \<open>C1: \<^verbatim>\<open>doc_updated_at\<close> takes precedence\<close>

text \<open>
  C1, as the code has it. When the merged metadata has a non-empty string at
  \<^verbatim>\<open>doc_updated_at\<close>, the timestamp parser succeeds on that string and the
  document's \<^verbatim>\<open>doc_updated_at\<close> is the parsed timestamp, whatever
  \<^verbatim>\<open>time_updated\<close> is.
\<close>

theorem doc_updated_at_precedence:
  assumes "fst (process_file E n file_name f md pp) = Inr docs" and "d \<in> set docs"
      and "extract_text E (get_file_ext E file_name) file_name f pp = Inr (raw, fm)"
      and "map_of (merge_metadata md fm) ''doc_updated_at'' = Some (PStr s)" and "s \<noteq> []"
  shows "\<exists>t. time_str_to_utc E (PStr s) = Inr t \<and> doc_updated_at d = PTime t"
proof -
  from process_file_doc[OF assms(1,2)] assms(3) have
    "build_documents E (utcnow E n) file_name raw md fm = Inr [d]" by auto
  from build_documents_Inr[OF this] obtain tu where
    "final_time_updated E (merge_metadata md fm) tu = Inr (doc_updated_at d)" by auto
  with assms(4,5) show ?thesis
    by (auto simp: final_time_updated_def Let_def dict_get_Some split: sum.splits)
qed

theorem doc_updated_at_precedence_witness:
  "\<exists>d. fst (process_file (example_env []) 0 ''doc.txt'' (TextFile ''body'' [])
              (Some [(''doc_updated_at'', PStr ''2024-01-01T00:00:00Z''), (''time_updated'', PTime 7)])
              None) = Inr [d] \<and>
        doc_updated_at d = PTime 1704067200"
proof -
  obtain d where h: "fst (process_file (example_env []) 0 ''doc.txt'' (TextFile ''body'' [])
              (Some [(''doc_updated_at'', PStr ''2024-01-01T00:00:00Z''), (''time_updated'', PTime 7)])
              None) = Inr [d]"
    by (simp add: example_defs)
  have x: "extract_text (example_env []) (get_file_ext (example_env []) ''doc.txt'') ''doc.txt''
             (TextFile ''body'' []) None = Inr (''body'', [])"
    by (simp add: example_defs)
  have m: "map_of (merge_metadata
             (Some [(''doc_updated_at'', PStr ''2024-01-01T00:00:00Z''), (''time_updated'', PTime 7)]) [])
             ''doc_updated_at'' = Some (PStr ''2024-01-01T00:00:00Z'')"
    by (simp add: example_defs)
  from doc_updated_at_precedence[OF h _ x m, of d]
  have "doc_updated_at d = PTime 1704067200" by (simp add: example_defs)
  with h show ?thesis by iprover
qed

text \<open>
  The empty string at \<^verbatim>\<open>doc_updated_at\<close> is falsy at line 156: the document is
  produced with the value of \<^verbatim>\<open>time_updated\<close>, 7 in one call and 8 in the other,
  so not with a value that the string alone gives; and the parser of the examples rejects
  the empty string.
\<close>

theorem doc_updated_at_empty_counterexample:
  "map_of (merge_metadata (Some [(''doc_updated_at'', PStr ''''), (''time_updated'', PTime 7)]) [])
     ''doc_updated_at'' = Some (PStr '''') \<and>
   map_sum id (map doc_updated_at)
     (fst (process_file (example_env []) 0 ''doc.txt'' (TextFile ''body'' [])
             (Some [(''doc_updated_at'', PStr ''''), (''time_updated'', PTime 7)]) None))
     = Inr [PTime 7] \<and>
   map_sum id (map doc_updated_at)
     (fst (process_file (example_env []) 0 ''doc.txt'' (TextFile ''body'' [])
             (Some [(''doc_updated_at'', PStr ''''), (''time_updated'', PTime 8)]) None))
     = Inr [PTime 8] \<and>
   time_str_to_utc (example_env []) (PStr '''') = Inl InvalidTimestamp"
  by (simp add: example_defs)

subsection \<open>C8: the owner lists\<close>

text \<open>
  C8, as the code has it. A non-empty list of names at \<^verbatim>\<open>primary_owners\<close> (and at
  \<^verbatim>\<open>secondary_owners\<close>) of the merged metadata becomes the list of the names, each
  wrapped in a \<^verbatim>\<open>BasicExpertInfo\<close>; when the key is absent, or the list is empty,
  the field is \<^verbatim>\<open>None\<close>.
\<close>

theorem owner_lists:
  assumes "fst (process_file E n file_name f md pp) = Inr docs" and "d \<in> set docs"
      and "extract_text E (get_file_ext E file_name) file_name f pp = Inr (raw, fm)"
  shows "(map_of (merge_metadata md fm) ''primary_owners'' = Some (PList names) \<and> names \<noteq> [] \<longrightarrow>
            primary_owners d = Some (map BasicExpertInfo names)) \<and>
         (map_of (merge_metadata md fm) ''primary_owners'' = None \<or>
          map_of (merge_metadata md fm) ''primary_owners'' = Some (PList []) \<longrightarrow>
            primary_owners d = None) \<and>
         (map_of (merge_metadata md fm) ''secondary_owners'' = Some (PList names) \<and> names \<noteq> [] \<longrightarrow>
            secondary_owners d = Some (map BasicExpertInfo names)) \<and>
         (map_of (merge_metadata md fm) ''secondary_owners'' = None \<or>
          map_of (merge_metadata md fm) ''secondary_owners'' = Some (PList []) \<longrightarrow>
            secondary_owners d = None)"
proof -
  from process_file_doc[OF assms(1,2)] assms(3) have
    "build_documents E (utcnow E n) file_name raw md fm = Inr [d]" by auto
  from build_documents_Inr[OF this] have
    p: "owners (dict_get (merge_metadata md fm) ''primary_owners'') = Inr (primary_owners d)" and
    s: "owners (dict_get (merge_metadata md fm) ''secondary_owners'') = Inr (secondary_owners d)"
    by auto
  from p have "(map_of (merge_metadata md fm) ''primary_owners'' = Some (PList names) \<and> names \<noteq> [] \<longrightarrow>
            primary_owners d = Some (map BasicExpertInfo names)) \<and>
         (map_of (merge_metadata md fm) ''primary_owners'' = None \<or>
          map_of (merge_metadata md fm) ''primary_owners'' = Some (PList []) \<longrightarrow>
            primary_owners d = None)"
    by (auto simp: owners_def dict_get_def)
  moreover from s have "(map_of (merge_metadata md fm) ''secondary_owners'' = Some (PList names) \<and> names \<noteq> [] \<longrightarrow>
            secondary_owners d = Some (map BasicExpertInfo names)) \<and>
         (map_of (merge_metadata md fm) ''secondary_owners'' = None \<or>
          map_of (merge_metadata md fm) ''secondary_owners'' = Some (PList []) \<longrightarrow>
            secondary_owners d = None)"
    by (auto simp: owners_def dict_get_def)
  ultimately show ?thesis by blast
qed

theorem owner_lists_witness:
  "\<exists>d. fst (process_file (example_env []) 0 ''doc.txt'' (TextFile ''body'' [])
              (Some [(''primary_owners'', PList [''ann'', ''bob''])]) None) = Inr [d] \<and>
        primary_owners d = Some [BasicExpertInfo ''ann'', BasicExpertInfo ''bob''] \<and>
        secondary_owners d = None"
proof -
  obtain d where h: "fst (process_file (example_env []) 0 ''doc.txt'' (TextFile ''body'' [])
              (Some [(''primary_owners'', PList [''ann'', ''bob''])]) None) = Inr [d]"
    by (simp add: example_defs)
  have x: "extract_text (example_env []) (get_file_ext (example_env []) ''doc.txt'') ''doc.txt''
             (TextFile ''body'' []) None = Inr (''body'', [])"
    by (simp add: example_defs)
  have m: "merge_metadata (Some [(''primary_owners'', PList [''ann'', ''bob''])]) []
             = [(''primary_owners'', PList [''ann'', ''bob''])]"
    by (simp add: example_defs)
  from owner_lists[OF h _ x, of d "[''ann'', ''bob'']"]
  have "primary_owners d = Some [BasicExpertInfo ''ann'', BasicExpertInfo ''bob''] \<and>
        secondary_owners d = None" by (simp add: m)
  with h show ?thesis by iprover
qed

text \<open>
  A list of zero names gives \<^verbatim>\<open>None\<close>, as an absent key does: lines 178 and 183
  test the truthiness of the list.
\<close>

theorem empty_owner_list_counterexample:
  "map_sum id (map primary_owners)
     (fst (process_file (example_env []) 0 ''doc.txt'' (TextFile ''body'' [])
             (Some [(''primary_owners'', PList [])]) None)) = Inr [None] \<and>
   map_sum id (map primary_owners)
     (fst (process_file (example_env []) 0 ''doc.txt'' (TextFile ''body'' [])
             (Some [(''link'', PStr ''x'')]) None)) = Inr [None]"
  by (simp add: example_defs)

subsection \<open>C7: the text of an e-mail\<close>

lemma eml_loop_filter:
  "eml_loop acc parts =
     acc @ map get_payload (filter (\<lambda>p. prefix ''text/plain'' (get_content_type p)) parts)"
  by (induction parts arbitrary: acc) auto

lemma payload_strings_all:
  "payload_strings ps = (if list_all isl ps then Inr (map projl ps) else Inl TypeError)"
  by (induction ps rule: payload_strings.induct) auto

lemma eml_text_eq:
  "eml_text msg =
     (if list_all (\<lambda>p. isl (get_payload p))
           (filter (\<lambda>p. prefix ''text/plain'' (get_content_type p)) (walk msg))
      then Inr (join_str ''\<newline>\<newline>''
                  (map (\<lambda>p. projl (get_payload p))
                     (filter (\<lambda>p. prefix ''text/plain'' (get_content_type p)) (walk msg))))
      else Inl TypeError)"
  by (simp add: eml_text_def eml_loop_filter payload_strings_all list_all_iff comp_def)

text \<open>
  C7, as the code has it. For an \<^verbatim>\<open>.eml\<close> entry that is decoded and parsed, the
  extracted text is the payloads, joined by a blank line, of exactly those parts of
  \<^verbatim>\<open>message.walk()\<close>, in its order, whose content type starts with
  \<^verbatim>\<open>text/plain\<close>; the other parts contribute nothing. (When one of those payloads
  is a list of sub-messages and not a string, the join raises \<^verbatim>\<open>TypeError\<close>.)
\<close>

theorem eml_extracted_text:
  assumes "detect_encoding E f = Inr enc" and "email_parse E f enc = Inr msg"
  shows "extract_text E ''.eml'' file_name f pp =
     (if list_all (\<lambda>p. isl (get_payload p))
           (filter (\<lambda>p. prefix ''text/plain'' (get_content_type p)) (walk msg))
      then Inr (join_str ''\<newline>\<newline>''
                  (map (\<lambda>p. projl (get_payload p))
                     (filter (\<lambda>p. prefix ''text/plain'' (get_content_type p)) (walk msg))), [])
      else Inl TypeError)"
  using assms by (simp add: extract_text_def eml_text_eq)

theorem eml_extracted_text_witness:
  "extract_text (example_env []) ''.eml'' ''m.eml''
     (EmlFile (Message ''multipart/mixed''
        (Inr [Message ''text/plain'' (Inl ''a''), Message ''text/html'' (Inl ''b''),
              Message ''text/plain'' (Inl ''c'')]))) None
   = Inr (''a\<newline>\<newline>c'', [])"
proof -
  have d: "detect_encoding (example_env []) (EmlFile (Message ''multipart/mixed''
        (Inr [Message ''text/plain'' (Inl ''a''), Message ''text/html'' (Inl ''b''),
              Message ''text/plain'' (Inl ''c'')]))) = Inr ''utf-8''"
    by (simp add: example_env_def)
  have p: "email_parse (example_env []) (EmlFile (Message ''multipart/mixed''
        (Inr [Message ''text/plain'' (Inl ''a''), Message ''text/html'' (Inl ''b''),
              Message ''text/plain'' (Inl ''c'')]))) ''utf-8'' = Inr (Message ''multipart/mixed''
        (Inr [Message ''text/plain'' (Inl ''a''), Message ''text/html'' (Inl ''b''),
              Message ''text/plain'' (Inl ''c'')]))"
    by (simp add: example_env_def)
  show ?thesis
    using eml_extracted_text[OF d p, of "''m.eml''" None] by simp
qed

text \<open>
  A part of content type \<^verbatim>\<open>text/plain-x\<close> is not of content type
  \<^verbatim>\<open>text/plain\<close>, and its payload is in the extracted text: line 130 tests
  \<^verbatim>\<open>startswith\<close>.
\<close>

theorem eml_content_type_counterexample:
  "extract_text (example_env []) ''.eml'' ''m.eml''
     (EmlFile (Message ''multipart/mixed''
        (Inr [Message ''text/plain'' (Inl ''a''), Message ''text/plain-x'' (Inl ''c'')]))) None
   = Inr (''a\<newline>\<newline>c'', []) \<and>
   join_str ''\<newline>\<newline>''
     (map (\<lambda>p. projl (get_payload p))
        (filter (\<lambda>p. get_content_type p = ''text/plain'')
           (walk (Message ''multipart/mixed''
              (Inr [Message ''text/plain'' (Inl ''a''), Message ''text/plain-x'' (Inl ''c'')])))))
   = ''a''"
  by (simp add: example_defs eml_text_def)

subsection \<open>C9: the text of a presentation\<close>

lemma shapes_loop_acc: "shapes_loop acc sl = acc @ shapes_loop [] sl"
proof (induction sl arbitrary: acc)
  case Nil show ?case by simp
next
  case (Cons sh sl)
  show ?case
    using Cons.IH[of "case sh of None \<Rightarrow> acc | Some t \<Rightarrow> acc @ t @ ''\<newline>''"]
          Cons.IH[of "case sh of None \<Rightarrow> [] | Some t \<Rightarrow> [] @ t @ ''\<newline>''"]
    by (simp split: option.splits)
qed

lemma rstrip_keep:
  "\<not> isspace b \<Longrightarrow>
   rev (dropWhile isspace (rev (xs @ b # ys))) = xs @ b # rev (dropWhile isspace (rev ys))"
  by (simp add: dropWhile_append)

lemma pptx_text_hello:
  "pptx_text [[Some ''Hello''], slide2] =
     ''\<newline>Slide 1:\<newline>Hello\<newline>\<newline>\<newline>\<newline>Slide 2:\<newline>'' @ shapes_loop [] slide2"
proof -
  have "shapes_loop ''\<newline>Slide 2:\<newline>'' slide2 = ''\<newline>Slide 2:\<newline>'' @ shapes_loop [] slide2"
    by (rule shapes_loop_acc)
  then show ?thesis by (simp add: pptx_text_def digit_char_def)
qed

lemma strip_pptx_hello:
  "strip (''\<newline>Slide 1:\<newline>Hello\<newline>\<newline>\<newline>\<newline>Slide 2:\<newline>'' @ rest) =
     ''Slide 1:\<newline>Hello\<newline>\<newline>\<newline>\<newline>Slide 2:'' @ rev (dropWhile isspace (rev (''\<newline>'' @ rest)))"
proof -
  have c: "\<not> isspace CHR '':''" by (simp add: isspace_def)
  have "dropWhile isspace (''\<newline>Slide 1:\<newline>Hello\<newline>\<newline>\<newline>\<newline>Slide 2:\<newline>'' @ rest)
        = ''Slide 1:\<newline>Hello\<newline>\<newline>\<newline>\<newline>Slide 2'' @ CHR '':'' # (''\<newline>'' @ rest)"
    by (simp add: isspace_def)
  then show ?thesis
    unfolding strip_def by (simp only: rstrip_keep[OF c]) simp
qed

text \<open>
  C9, as the code has it. For a \<^verbatim>\<open>.pptx\<close> entry of two slides whose first slide has
  one shape, of text \<^verbatim>\<open>Hello\<close>, the extracted text is the header of slide 1 after a
  line break, \<^verbatim>\<open>Hello\<close> and a line break, the separator of two line breaks, then
  the header of slide 2 after a line break and the texts of its shapes, each followed by a
  line break. The text of the section is that text stripped: it starts with
  \<^verbatim>\<open>Slide 1:\<close>, without a leading line break, and has four line breaks between
  \<^verbatim>\<open>Hello\<close> and \<^verbatim>\<open>Slide 2:\<close>.
\<close>

theorem pptx_section_text:
  assumes "get_file_ext E file_name = ''.pptx''"
      and "pptx_Presentation E f = Inr [[Some ''Hello''], slide2]"
      and "fst (process_file E n file_name f md pp) = Inr docs" and "d \<in> set docs"
  shows "extract_text E ''.pptx'' file_name f pp =
           Inr (''\<newline>Slide 1:\<newline>Hello\<newline>\<newline>\<newline>\<newline>Slide 2:\<newline>'' @ shapes_loop [] slide2, []) \<and>
         (\<exists>rest. map section_text (sections d) =
                   [''Slide 1:\<newline>Hello\<newline>\<newline>\<newline>\<newline>Slide 2:'' @ rest])"
proof -
  have x: "extract_text E ''.pptx'' file_name f pp =
           Inr (''\<newline>Slide 1:\<newline>Hello\<newline>\<newline>\<newline>\<newline>Slide 2:\<newline>'' @ shapes_loop [] slide2, [])"
    using assms(2) by (simp add: extract_text_def pptx_text_hello)
  from process_file_doc[OF assms(3,4)] assms(1) x have
    "build_documents E (utcnow E n) file_name
       (''\<newline>Slide 1:\<newline>Hello\<newline>\<newline>\<newline>\<newline>Slide 2:\<newline>'' @ shapes_loop [] slide2) md [] = Inr [d]"
    by auto
  from build_documents_Inr[OF this] have
    "map section_text (sections d) =
       [strip (''\<newline>Slide 1:\<newline>Hello\<newline>\<newline>\<newline>\<newline>Slide 2:\<newline>'' @ shapes_loop [] slide2)]"
    by auto
  then have "map section_text (sections d) =
       [''Slide 1:\<newline>Hello\<newline>\<newline>\<newline>\<newline>Slide 2:'' @
          rev (dropWhile isspace (rev (''\<newline>'' @ shapes_loop [] slide2)))]"
    by (simp only: strip_pptx_hello)
  with x show ?thesis by iprover
qed

theorem pptx_section_text_witness:
  "\<exists>d rest. fst (process_file (example_env []) 0 ''deck.pptx''
                   (PptxFile [[Some ''Hello''], [Some ''World'']]) None None) = Inr [d] \<and>
             map section_text (sections d) =
               [''Slide 1:\<newline>Hello\<newline>\<newline>\<newline>\<newline>Slide 2:'' @ rest]"
proof -
  have "map_sum id length (fst (process_file (example_env []) 0 ''deck.pptx''
                   (PptxFile [[Some ''Hello''], [Some ''World'']]) None None)) = Inr 1"
    by code_simp
  then obtain d where h: "fst (process_file (example_env []) 0 ''deck.pptx''
                   (PptxFile [[Some ''Hello''], [Some ''World'']]) None None) = Inr [d]"
    by (cases "fst (process_file (example_env []) 0 ''deck.pptx''
                   (PptxFile [[Some ''Hello''], [Some ''World'']]) None None)")
       (auto simp: length_Suc_conv)
  have e: "get_file_ext (example_env []) ''deck.pptx'' = ''.pptx''" by (simp add: example_defs)
  have p: "pptx_Presentation (example_env []) (PptxFile [[Some ''Hello''], [Some ''World'']])
             = Inr [[Some ''Hello''], [Some ''World'']]" by (simp add: example_defs)
  from pptx_section_text[OF e p h, of d] obtain rest where
    "map section_text (sections d) =
       [''Slide 1:\<newline>Hello\<newline>\<newline>\<newline>\<newline>Slide 2:'' @ rest]" by auto
  with h show ?thesis by iprover
qed

text \<open>
  The text of the section does not start with the pattern of the scenario, a line break
  before \<^verbatim>\<open>Slide 1:\<close> and three line breaks before \<^verbatim>\<open>Slide 2:\<close>; nor
  does the extracted text before line 191 strips it.
\<close>

theorem pptx_scenario_counterexample:
  "map_sum id (map (\<lambda>d. map section_text (sections d)))
     (fst (process_file (example_env []) 0 ''deck.pptx''
             (PptxFile [[Some ''Hello''], [Some ''World'']]) None None))
     = Inr [[''Slide 1:\<newline>Hello\<newline>\<newline>\<newline>\<newline>Slide 2:\<newline>World'']] \<and>
   \<not> prefix ''\<newline>Slide 1:\<newline>Hello\<newline>\<newline>\<newline>Slide 2:\<newline>''
        ''Slide 1:\<newline>Hello\<newline>\<newline>\<newline>\<newline>Slide 2:\<newline>World'' \<and>
   pptx_text [[Some ''Hello''], [Some ''World'']]
     = ''\<newline>Slide 1:\<newline>Hello\<newline>\<newline>\<newline>\<newline>Slide 2:\<newline>World\<newline>'' \<and>
   \<not> prefix ''\<newline>Slide 1:\<newline>Hello\<newline>\<newline>\<newline>Slide 2:\<newline>''
        (pptx_text [[Some ''Hello''], [Some ''World'']])"
  by code_simp

subsection \<open>C4: an unsupported extension\<close>

text \<open>
  C4. An entry whose extension \<^verbatim>\<open>check_file_ext_is_valid\<close> rejects makes
  \<^verbatim>\<open>_process_file\<close> return no document and no error, without a call of the clock,
  and the loop over the entries goes on with the next entry in the same state (while the
  batch in progress is below the batch size, as it is when the batch size is at least 1).
  A standalone file that the store can read and whose extension is neither
  \<^verbatim>\<open>.zip\<close> nor in the list of line 57 yields no entry and no error, and the loop
  over the locations goes on with the next location.
\<close>

theorem unsupported_extension_skipped:
  "(\<not> check_file_ext_is_valid E (get_file_ext E file_name) \<longrightarrow>
      process_file E n file_name f md pp = (Inr [], n) \<and>
      (int (length (documents st)) < batch_size c \<longrightarrow>
         files_loop E c cur st ((file_name, f, emd) # entries) = files_loop E c cur st entries)) \<and>
   (store_read_file E file_path = Inr content \<and>
    get_file_ext E file_path \<notin> set [''.zip'', ''.txt'', ''.md'', ''.mdx'', ''.pdf'', ''.docx'',
                                      ''.pptx'', ''.xlsx'', ''.csv'', ''.eml'', ''.epub''] \<longrightarrow>
      read_files_and_metadata E file_path = ([], None) \<and>
      locations_loop E c st (file_path # rest) =
        locations_loop E c (st\<lparr>clock := Suc (clock st)\<rparr>) rest)"
proof (intro conjI impI)
  assume u: "\<not> check_file_ext_is_valid E (get_file_ext E file_name)"
  then show "process_file E n file_name f md pp = (Inr [], n)"
    by (simp add: process_file_def)
  assume "int (length (documents st)) < batch_size c"
  with u show "files_loop E c cur st ((file_name, f, emd) # entries) = files_loop E c cur st entries"
    by (simp add: process_entry_def process_file_def)
next
  assume a: "store_read_file E file_path = Inr content \<and>
    get_file_ext E file_path \<notin> set [''.zip'', ''.txt'', ''.md'', ''.mdx'', ''.pdf'', ''.docx'',
                                      ''.pptx'', ''.xlsx'', ''.csv'', ''.eml'', ''.epub'']"
  then show r: "read_files_and_metadata E file_path = ([], None)"
    by (simp add: read_files_and_metadata_def)
  show "locations_loop E c st (file_path # rest) =
        locations_loop E c (st\<lparr>clock := Suc (clock st)\<rparr>) rest"
    by (simp add: r)
qed

theorem unsupported_extension_skipped_witness:
  "process_file (example_env [(''q.exe'', Bytes ''MZ'')]) 0 ''in/y.exe'' (Bytes ''MZ'') None None
     = (Inr [], 0) \<and>
   files_loop (example_env [(''q.exe'', Bytes ''MZ'')])
     \<lparr>file_locations = [], batch_size = 2, pdf_pass = None\<rparr> 1000
     \<lparr>documents = [], yielded = [], clock = 0\<rparr> [(''in/y.exe'', Bytes ''MZ'', [])]
     = (\<lparr>documents = [], yielded = [], clock = 0\<rparr>, None) \<and>
   read_files_and_metadata (example_env [(''q.exe'', Bytes ''MZ'')]) ''q.exe'' = ([], None)"
proof -
  have u: "\<not> check_file_ext_is_valid (example_env [(''q.exe'', Bytes ''MZ'')])
               (get_file_ext (example_env [(''q.exe'', Bytes ''MZ'')]) ''in/y.exe'')"
    by (simp add: example_defs)
  have s: "store_read_file (example_env [(''q.exe'', Bytes ''MZ'')]) ''q.exe'' = Inr (Bytes ''MZ'')"
    by (simp add: example_defs)
  have x: "get_file_ext (example_env [(''q.exe'', Bytes ''MZ'')]) ''q.exe''
             \<notin> set [''.zip'', ''.txt'', ''.md'', ''.mdx'', ''.pdf'', ''.docx'',
                      ''.pptx'', ''.xlsx'', ''.csv'', ''.eml'', ''.epub'']"
    by (simp add: example_defs)
  from unsupported_extension_skipped[where E = "example_env [(''q.exe'', Bytes ''MZ'')]"
      and file_name = "''in/y.exe''" and file_path = "''q.exe''" and content = "Bytes ''MZ''"
      and n = 0 and f = "Bytes ''MZ''" and md = None and pp = None
      and st = "\<lparr>documents = [], yielded = [], clock = 0\<rparr>"
      and c = "\<lparr>file_locations = [], batch_size = 2, pdf_pass = None\<rparr>"
      and cur = 1000 and emd = "[]" and entries = "[]"]
    u s x
  show ?thesis by simp
qed

subsection \<open>C10: the default instant of a location\<close>

lemma merged_default_time:
  assumes "no_time_keys md" and "no_time_keys fm"
  shows "map_of (merge_metadata (Some (dict_set md ''time_updated''
                    (dict_get_default md ''time_updated'' (PTime cur)))) fm) ''time_updated''
           = Some (PTime cur)"
    and "map_of (merge_metadata (Some (dict_set md ''time_updated''
                    (dict_get_default md ''time_updated'' (PTime cur)))) fm) ''doc_updated_at''
           = None"
proof -
  let ?m = "dict_set md ''time_updated'' (dict_get_default md ''time_updated'' (PTime cur))"
  have ne: "?m \<noteq> []"
    by (cases md) (auto simp: dict_set_def)
  have a1: "''time_updated'' \<notin> fst ` set fm" and a2: "''doc_updated_at'' \<notin> fst ` set fm"
    using assms(2) by (simp_all only: no_time_keys_def map_of_eq_None_iff not_False_eq_True)
  have g: "dict_get_default md ''time_updated'' (PTime cur) = PTime cur"
    using assms(1) by (simp add: no_time_keys_def dict_get_default_def)
  have "map_of (dict_merge ?m fm) ''time_updated'' = map_of ?m ''time_updated''"
    using a1 by (rule map_of_dict_merge_absent)
  also have "\<dots> = Some (PTime cur)" by (simp add: map_of_dict_set g)
  finally show "map_of (merge_metadata (Some ?m) fm) ''time_updated'' = Some (PTime cur)"
    using ne by (simp add: merge_metadata_def)
  have "map_of (dict_merge ?m fm) ''doc_updated_at'' = map_of ?m ''doc_updated_at''"
    using a2 by (rule map_of_dict_merge_absent)
  also have "\<dots> = None" using assms(1) by (simp add: map_of_dict_set no_time_keys_def)
  finally show "map_of (merge_metadata (Some ?m) fm) ''doc_updated_at'' = None"
    using ne by (simp add: merge_metadata_def)
qed

lemma process_entry_default_time:
  assumes "fst (process_entry E c cur n entry) = Inr docs" and "d \<in> set docs"
      and "supplies_no_time E c entry"
  shows "doc_updated_at d = PTime cur"
proof -
  obtain file_name f md where e: "entry = (file_name, f, md)" by (cases entry)
  let ?m = "dict_set md ''time_updated'' (dict_get_default md ''time_updated'' (PTime cur))"
  from assms(1) e have pf: "fst (process_file E n file_name f (Some ?m) (pdf_pass c)) = Inr docs"
    by (simp add: process_entry_def)
  from process_file_doc[OF pf assms(2)] obtain raw fm where
    x: "extract_text E (get_file_ext E file_name) file_name f (pdf_pass c) = Inr (raw, fm)" and
    b: "build_documents E (utcnow E n) file_name raw (Some ?m) fm = Inr [d]" by blast
  from assms(3) e x have k: "no_time_keys md" "no_time_keys fm"
    by (simp_all add: supplies_no_time_def)
  note mt = merged_default_time[OF k, of cur]
  from build_documents_Inr[OF b] obtain tu where
    r: "resolve_time_updated E (utcnow E n) (merge_metadata (Some ?m) fm) = Inr tu" and
    fi: "final_time_updated E (merge_metadata (Some ?m) fm) tu = Inr (doc_updated_at d)" by auto
  from r mt(1) have "tu = PTime cur"
    by (simp add: resolve_time_updated_def dict_get_default_def)
  with fi mt(2) show ?thesis
    by (simp add: final_time_updated_def dict_get_def)
qed

lemma process_entry_doc_id:
  assumes "fst (process_entry E c cur n entry) = Inr docs" and "d \<in> set docs"
  shows "doc_id d = ''FILE_CONNECTOR__'' @ fst entry"
proof -
  obtain file_name f md where e: "entry = (file_name, f, md)" by (cases entry)
  from assms(1) e obtain mdx where pf: "fst (process_file E n file_name f mdx (pdf_pass c)) = Inr docs"
    by (simp add: process_entry_def)
  from process_file_doc[OF pf assms(2)] obtain raw fm where
    "build_documents E (utcnow E n) file_name raw mdx fm = Inr [d]" by blast
  from build_documents_Inr[OF this] e show ?thesis by auto
qed

lemma location_new_docs:
  assumes "locations_loop E c st [file_path] = (st', r)"
      and "read_files_and_metadata E file_path = (files, raised)"
      and "d \<in> set (all_documents st')" and "d \<notin> set (all_documents st)"
  shows "\<exists>entry \<in> set files. \<exists>n docs.
           fst (process_entry E c (utcnow E (clock st)) n entry) = Inr docs \<and> d \<in> set docs"
proof -
  obtain st1 r1 where fl:
    "files_loop E c (utcnow E (clock st)) (st\<lparr>clock := Suc (clock st)\<rparr>) files = (st1, r1)"
    by (cases "files_loop E c (utcnow E (clock st)) (st\<lparr>clock := Suc (clock st)\<rparr>) files")
  with assms(1,2) have s: "st' = st1"
    by (auto simp: Let_def split: option.splits)
  let ?P = "\<lambda>d. d \<in> set (all_documents st) \<or>
             (\<exists>entry \<in> set files. \<exists>n docs.
                fst (process_entry E c (utcnow E (clock st)) n entry) = Inr docs \<and> d \<in> set docs)"
  have "\<forall>d \<in> set (all_documents st1). ?P d"
  proof (rule files_loop_docs[OF fl])
    show "\<forall>d \<in> set (all_documents (st\<lparr>clock := Suc (clock st)\<rparr>)). ?P d"
      by (simp add: all_documents_def)
  next
    fix n entry docs d
    assume "entry \<in> set files" "fst (process_entry E c (utcnow E (clock st)) n entry) = Inr docs"
      "d \<in> set docs"
    then show "?P d" by blast
  qed
  with assms(3,4) s show ?thesis by blast
qed

text \<open>
  C10. Let the loop over the locations process one location from any state. Two documents
  that it adds, such that every entry of the location with the file name of either
  supplies neither \<^verbatim>\<open>time_updated\<close> nor \<^verbatim>\<open>doc_updated_at\<close> (in the
  caller's metadata and in the extractor's), carry the same \<^verbatim>\<open>doc_updated_at\<close>:
  the instant that line 223 read from the clock when the processing of the location began,
  whatever the clock returns at line 151 for each entry.
\<close>

theorem location_default_time:
  assumes "locations_loop E c st [file_path] = (st', r)"
      and "read_files_and_metadata E file_path = (files, raised)"
      and "d1 \<in> set (all_documents st')" and "d1 \<notin> set (all_documents st)"
      and "d2 \<in> set (all_documents st')" and "d2 \<notin> set (all_documents st)"
      and "\<forall>entry \<in> set files.
             doc_id d1 = ''FILE_CONNECTOR__'' @ fst entry \<or> doc_id d2 = ''FILE_CONNECTOR__'' @ fst entry
               \<longrightarrow> supplies_no_time E c entry"
  shows "doc_updated_at d1 = PTime (utcnow E (clock st)) \<and> doc_updated_at d2 = doc_updated_at d1"
proof -
  have t: "doc_updated_at d = PTime (utcnow E (clock st))"
    if "d \<in> set (all_documents st')" and "d \<notin> set (all_documents st)"
      and "\<forall>entry \<in> set files. doc_id d = ''FILE_CONNECTOR__'' @ fst entry \<longrightarrow> supplies_no_time E c entry"
    for d
  proof -
    from location_new_docs[OF assms(1,2) that(1,2)] obtain entry n docs where
      e: "entry \<in> set files" and
      p: "fst (process_entry E c (utcnow E (clock st)) n entry) = Inr docs" and m: "d \<in> set docs"
      by blast
    from process_entry_doc_id[OF p m] e that(3) have "supplies_no_time E c entry" by blast
    with p m show ?thesis by (rule process_entry_default_time)
  qed
  from assms(7) have 1: "\<forall>entry \<in> set files. doc_id d1 = ''FILE_CONNECTOR__'' @ fst entry \<longrightarrow> supplies_no_time E c entry"
    and 2: "\<forall>entry \<in> set files. doc_id d2 = ''FILE_CONNECTOR__'' @ fst entry \<longrightarrow> supplies_no_time E c entry"
    by blast+
  from t[OF assms(3,4) 1] t[OF assms(5,6) 2] show ?thesis by simp
qed

theorem location_default_time_witness:
  "\<exists>st' d1 d2.
     locations_loop
       (example_env [(''in/a.zip'', ZipFile [(''x.txt'', TextFile ''x'' [], []),
                                            (''z.md'', TextFile ''z'' [], [(''link'', PStr ''l'')])])])
       \<lparr>file_locations = [''in/a.zip''], batch_size = 5, pdf_pass = None\<rparr>
       \<lparr>documents = [], yielded = [], clock = 0\<rparr> [''in/a.zip''] = (st', None) \<and>
     all_documents st' = [d1, d2] \<and>
     doc_updated_at d1 = PTime 1000 \<and> doc_updated_at d2 = doc_updated_at d1"
proof -
  let ?E = "example_env [(''in/a.zip'', ZipFile [(''x.txt'', TextFile ''x'' [], []),
                                            (''z.md'', TextFile ''z'' [], [(''link'', PStr ''l'')])])]"
  let ?c = "\<lparr>file_locations = [''in/a.zip''], batch_size = 5, pdf_pass = None\<rparr>"
  let ?st = "\<lparr>documents = [], yielded = [], clock = 0\<rparr>"
  let ?files = "[(''in/x.txt'', TextFile ''x'' [], []),
                 (''in/z.md'', TextFile ''z'' [], [(''link'', PStr ''l'')])]"
  have "map_prod (\<lambda>st. map doc_id (all_documents st)) id (locations_loop ?E ?c ?st [''in/a.zip''])
          = ([''FILE_CONNECTOR__in/x.txt'', ''FILE_CONNECTOR__in/z.md''], None)"
    by code_simp
  then obtain st' d1 d2 where h: "locations_loop ?E ?c ?st [''in/a.zip''] = (st', None)"
    and a: "all_documents st' = [d1, d2]"
    and i1: "doc_id d1 = ''FILE_CONNECTOR__in/x.txt''" and i2: "doc_id d2 = ''FILE_CONNECTOR__in/z.md''"
    by (cases "locations_loop ?E ?c ?st [''in/a.zip'']") auto
  have rf: "read_files_and_metadata ?E ''in/a.zip'' = (?files, None)"
    by code_simp
  have q: "\<forall>entry \<in> set ?files.
             doc_id d1 = ''FILE_CONNECTOR__'' @ fst entry \<or> doc_id d2 = ''FILE_CONNECTOR__'' @ fst entry
               \<longrightarrow> supplies_no_time ?E ?c entry"
  proof -
    have "supplies_no_time ?E ?c (''in/x.txt'', TextFile ''x'' [], [])" by code_simp
    moreover have "supplies_no_time ?E ?c (''in/z.md'', TextFile ''z'' [], [(''link'', PStr ''l'')])"
      by code_simp
    ultimately show ?thesis by simp
  qed
  have n0: "all_documents ?st = []" by (simp add: all_documents_def)
  from location_default_time[OF h rf _ _ _ _ q] a n0
  have "doc_updated_at d1 = PTime (utcnow ?E (clock ?st)) \<and> doc_updated_at d2 = doc_updated_at d1"
    by simp
  moreover have "utcnow ?E (clock ?st) = 1000" by (simp add: example_env_def)
  ultimately have "doc_updated_at d1 = PTime 1000 \<and> doc_updated_at d2 = doc_updated_at d1" by simp
  with h a show ?thesis by iprover
qed

end
